theory Spec2Isabelle
  imports Complex_Main "HOL-Library.Word" "HOL-Library.Char_ord" "HOL-Library.List_Lexorder"
begin

unbundle bit_operations_syntax

section \<open>Values and errors\<close>

text \<open>
  The two pipelines (\<^verbatim>\<open>etl_pipeline.py\<close>, writing to SQLite, and
  \<^verbatim>\<open>etl_pipeline_mysql.py\<close>) are modelled as pure functions over lists of rows.
  Every exception the modelled statements can raise is a value of \<open>error\<close>; a
  computation that may raise returns \<open>error + 'a\<close>, with \<open>Inl\<close> for the exception.
\<close>

datatype error =
    NameError string
  | KeyError string
  | ValueError
  | OverflowError

definition bind_err :: "error + 'a \<Rightarrow> ('a \<Rightarrow> error + 'b) \<Rightarrow> error + 'b" where
  "bind_err r f = (case r of Inl e \<Rightarrow> Inl e | Inr x \<Rightarrow> f x)"

text \<open>
  A Python float: a finite value (every finite double is a rational number), the two
  infinities, or NaN. Comparison is IEEE comparison: exact on the finite values, and
  false whenever NaN takes part.
\<close>

datatype pyfloat = Finite rat | PosInf | NegInf | NaN

fun float_lt :: "pyfloat \<Rightarrow> pyfloat \<Rightarrow> bool" where
  "float_lt (Finite a) (Finite b) = (a < b)"
| "float_lt (Finite a) PosInf = True"
| "float_lt NegInf (Finite b) = True"
| "float_lt NegInf PosInf = True"
| "float_lt _ _ = False"

fun float_le :: "pyfloat \<Rightarrow> pyfloat \<Rightarrow> bool" where
  "float_le NaN _ = False"
| "float_le _ NaN = False"
| "float_le a b = (a = b \<or> float_lt a b)"

section \<open>Attribute classifiers\<close>

text \<open>
  \<^verbatim>\<open>age_band\<close>: the list of bins, scanned in order; the first bin that contains the
  age gives the label, and an age in no bin gives \<^verbatim>\<open>"unknown"\<close>.
\<close>

definition bins :: "(int \<times> int \<times> string) list" where
  "bins = [(0, 17, ''0-17''), (18, 24, ''18-24''), (25, 34, ''25-34''), (35, 44, ''35-44''),
           (45, 54, ''45-54''), (55, 64, ''55-64''), (65, 200, ''65+'')]"

fun age_band_scan :: "(int \<times> int \<times> string) list \<Rightarrow> int \<Rightarrow> string" where
  "age_band_scan [] age = ''unknown''"
| "age_band_scan ((lo, hi, label) # rest) age =
     (if lo \<le> age \<and> age \<le> hi then label else age_band_scan rest age)"

definition age_band :: "int \<Rightarrow> string" where
  "age_band age = age_band_scan bins age"

text \<open>\<^verbatim>\<open>bmi_category\<close>: three comparisons in the order of the source.\<close>

definition bmi_category :: "pyfloat \<Rightarrow> string" where
  "bmi_category bmi =
     (if float_lt bmi (Finite (37 / 2)) then ''Underweight''
      else if float_lt bmi (Finite 25) then ''Normal''
      else if float_lt bmi (Finite 30) then ''Overweight''
      else ''Obese'')"

section \<open>Strings and numbers\<close>

text \<open>
  Strings are lists of characters read as code points below 256. \<open>str_int\<close> is
  Python's \<^verbatim>\<open>str\<close> on an integer of at most 4300 decimal digits (decimal digits, a
  leading minus sign for a negative number); on a longer integer CPython 3.11 and later
  raise \<^verbatim>\<open>ValueError\<close>, and the properties of the date assigner are stated for the
  integers within that limit. The row identifiers of a frame are 64-bit integers, far
  below it. \<open>int_of_dec\<close> is \<^verbatim>\<open>int\<close> on a string of decimal digits and
  \<open>int_of_hex\<close> is \<^verbatim>\<open>int(s, 16)\<close> on a string of lower-case hexadecimal digits.
\<close>

fun dec :: "nat \<Rightarrow> string" where
  "dec n = (if n < 10 then [char_of (48 + n)] else dec (n div 10) @ [char_of (48 + n mod 10)])"

declare dec.simps [simp del]

definition str_int :: "int \<Rightarrow> string" where
  "str_int i = (if i < 0 then CHR ''-'' # dec (nat (- i)) else dec (nat i))"

definition zfill :: "nat \<Rightarrow> string \<Rightarrow> string" where
  "zfill k s = replicate (k - length s) CHR ''0'' @ s"

definition int_of_dec :: "string \<Rightarrow> int" where
  "int_of_dec s = foldl (\<lambda>acc c. 10 * acc + (of_char c - 48)) 0 s"

definition hex_value :: "char \<Rightarrow> int" where
  "hex_value c = (if of_char c < (58::nat) then of_char c - 48 else of_char c - 87)"

definition int_of_hex :: "string \<Rightarrow> int" where
  "int_of_hex s = foldl (\<lambda>acc c. 16 * acc + hex_value c) 0 s"

section \<open>The hash\<close>

text \<open>
  \<^verbatim>\<open>hashlib.sha256(b).hexdigest()\<close> is a library function: the model takes it as the
  parameter \<open>H\<close>, from the encoded bytes to the string of hexadecimal digits. \<open>encode\<close>
  is \<^verbatim>\<open>str.encode\<close> on a string of ASCII characters.
\<close>

type_synonym byte = "8 word"
type_synonym hexdigest = "byte list \<Rightarrow> string"

definition encode :: "string \<Rightarrow> byte list" where
  "encode s = map of_char s"

section \<open>Calendar dates\<close>

text \<open>
  A \<^verbatim>\<open>datetime\<close> at midnight is its calendar date. The constructor takes its
  arguments as C integers and raises \<^verbatim>\<open>OverflowError\<close> for an argument outside the
  32-bit range; within it, it raises \<^verbatim>\<open>ValueError\<close> outside the years 1 to 9999 or
  for a day that does not exist. Adding days raises \<^verbatim>\<open>OverflowError\<close> when the result
  would lie after 9999-12-31.
  Only non-negative numbers of days are ever added.
\<close>

record date =
  year :: int
  month :: int
  day :: int

definition is_leap :: "int \<Rightarrow> bool" where
  "is_leap y = (y mod 4 = 0 \<and> (y mod 100 \<noteq> 0 \<or> y mod 400 = 0))"

definition days_in_month :: "int \<Rightarrow> int \<Rightarrow> int" where
  "days_in_month y m =
     (if m = 2 then (if is_leap y then 29 else 28)
      else if m = 4 \<or> m = 6 \<or> m = 9 \<or> m = 11 then 30 else 31)"

definition valid_date :: "date \<Rightarrow> bool" where
  "valid_date d = (1 \<le> year d \<and> year d \<le> 9999 \<and> 1 \<le> month d \<and> month d \<le> 12
                   \<and> 1 \<le> day d \<and> day d \<le> days_in_month (year d) (month d))"

definition c_int_ok :: "int \<Rightarrow> bool" where
  "c_int_ok x = (- (2 ^ 31) \<le> x \<and> x < 2 ^ 31)"

definition datetime :: "int \<Rightarrow> int \<Rightarrow> int \<Rightarrow> error + date" where
  "datetime y m d =
     (if c_int_ok y \<and> c_int_ok m \<and> c_int_ok d
      then (let r = \<lparr>year = y, month = m, day = d\<rparr>
            in if valid_date r then Inr r else Inl ValueError)
      else Inl OverflowError)"

definition add_one_day :: "date \<Rightarrow> error + date" where
  "add_one_day d =
     (if day d < days_in_month (year d) (month d) then Inr (d\<lparr>day := day d + 1\<rparr>)
      else if month d < 12 then Inr (d\<lparr>month := month d + 1, day := 1\<rparr>)
      else if year d < 9999 then Inr \<lparr>year = year d + 1, month = 1, day = 1\<rparr>
      else Inl OverflowError)"

fun add_days :: "nat \<Rightarrow> date \<Rightarrow> error + date" where
  "add_days 0 d = Inr d"
| "add_days (Suc n) d = bind_err (add_one_day d) (add_days n)"

definition date_max :: date where
  "date_max = \<lparr>year = 9999, month = 12, day = 31\<rparr>"

definition date_le :: "date \<Rightarrow> date \<Rightarrow> bool" where
  "date_le a b =
     (year a < year b \<or> (year a = year b \<and>
        (month a < month b \<or> (month a = month b \<and> day a \<le> day b))))"

definition days_before_year :: "int \<Rightarrow> int" where
  "days_before_year y = (y - 1) * 365 + (y - 1) div 4 - (y - 1) div 100 + (y - 1) div 400"

definition days_before_month :: "int \<Rightarrow> int \<Rightarrow> int" where
  "days_before_month y m =
     [0, 31, 59, 90, 120, 151, 181, 212, 243, 273, 304, 334] ! nat (m - 1)
       + (if m > 2 \<and> is_leap y then 1 else 0)"

definition toordinal :: "date \<Rightarrow> int" where
  "toordinal d = days_before_year (year d) + days_before_month (year d) (month d) + day d"

definition weekday :: "date \<Rightarrow> int" where
  "weekday d = (toordinal d + 6) mod 7"

definition isoweekday :: "date \<Rightarrow> int" where
  "isoweekday d = (if toordinal d mod 7 = 0 then 7 else toordinal d mod 7)"

definition strftime_Ymd :: "date \<Rightarrow> string" where
  "strftime_Ymd d = zfill 4 (dec (nat (year d))) @ zfill 2 (dec (nat (month d)))
                      @ zfill 2 (dec (nat (day d)))"

definition isoformat :: "date \<Rightarrow> string" where
  "isoformat d = zfill 4 (dec (nat (year d))) @ ''-'' @ zfill 2 (dec (nat (month d)))
                   @ ''-'' @ zfill 2 (dec (nat (day d)))"

definition day_names :: "string list" where
  "day_names = [''Monday'', ''Tuesday'', ''Wednesday'', ''Thursday'', ''Friday'',
                ''Saturday'', ''Sunday'']"

definition month_names :: "string list" where
  "month_names = [''January'', ''February'', ''March'', ''April'', ''May'', ''June'', ''July'',
                  ''August'', ''September'', ''October'', ''November'', ''December'']"

section \<open>Deterministic date assigner\<close>

definition deterministc_date_for_row :: "hexdigest \<Rightarrow> int \<Rightarrow> int \<Rightarrow> error + int" where
  "deterministc_date_for_row H row_id yr =
     (let rnd = int_of_hex (H (encode (str_int row_id)));
          day_of_year = rnd mod 365 + 1
      in bind_err (datetime yr 1 1) (\<lambda>jan1.
         bind_err (add_days (nat (day_of_year - 1)) jan1) (\<lambda>dt.
         Inr (int_of_dec (strftime_Ymd dt)))))"

section \<open>Date dimension\<close>

record date_row =
  date_key :: int
  full_date :: string
  day_of_week :: int
  day_name :: string
  month_of_year :: int
  month_name :: string
  calendar_quarter :: int
  calendar_year :: int
  is_weekend :: int

definition make_date_row :: "date \<Rightarrow> date_row" where
  "make_date_row cur =
     \<lparr>date_key = int_of_dec (strftime_Ymd cur),
      full_date = isoformat cur,
      day_of_week = isoweekday cur,
      day_name = day_names ! nat (weekday cur),
      month_of_year = month cur,
      month_name = month_names ! nat (month cur - 1),
      calendar_quarter = (month cur - 1) div 3 + 1,
      calendar_year = year cur,
      is_weekend = (if weekday cur \<ge> 5 then 1 else 0)\<rparr>"

text \<open>
  The loop of \<^verbatim>\<open>make_date_dim\<close>: while \<open>cur \<le> end\<close>, append the row of \<open>cur\<close> and
  advance \<open>cur\<close> by one day. The two arguments are the dates that
  \<^verbatim>\<open>datetime.fromisoformat\<close> returns for the two strings.
\<close>

function make_date_dim_loop :: "date \<Rightarrow> date \<Rightarrow> date_row list \<Rightarrow> error + date_row list" where
  "make_date_dim_loop cur end_dt rows =
     (if date_le cur end_dt
      then (case add_one_day cur of
              Inl e \<Rightarrow> Inl e
            | Inr nxt \<Rightarrow> make_date_dim_loop nxt end_dt (rows @ [make_date_row cur]))
      else Inr rows)"
  by pat_completeness auto
termination
  by (relation "measures [\<lambda>(c, e, r). nat (year e - year c + 1),
                            \<lambda>(c, e, r). nat (12 - month c),
                            \<lambda>(c, e, r). nat (31 - day c)]")
     (auto simp: add_one_day_def date_le_def days_in_month_def split: if_splits)

declare make_date_dim_loop.simps [simp del]

definition make_date_dim :: "date \<Rightarrow> date \<Rightarrow> error + date_row list" where
  "make_date_dim start_dt end_dt = make_date_dim_loop start_dt end_dt []"

section \<open>Frames\<close>

text \<open>
  A frame is the list of its rows, in index order. \<open>raw_record\<close> is a row of
  \<^verbatim>\<open>insurance.csv\<close>, \<open>provider\<close> a region object of the reference document.
  After step 3 a row carries the two derived columns, and its region is stripped and
  lower-cased.
\<close>

record raw_record =
  age :: int
  sex :: string
  bmi :: pyfloat
  children :: int
  smoker :: string
  region :: string
  charges :: pyfloat

record insured_row = raw_record +
  age_band_col :: string
  bmi_category_col :: string

record provider =
  p_region :: string
  p_preferred_provider :: string
  p_network_tier :: string

text \<open>\<^verbatim>\<open>str.strip\<close> and \<^verbatim>\<open>str.lower\<close> on code points below 256.\<close>

definition is_space :: "char \<Rightarrow> bool" where
  "is_space c = (of_char c \<in> {9, 10, 11, 12, 13, 28, 29, 30, 31, 32, 133, 160 :: nat})"

definition str_strip :: "string \<Rightarrow> string" where
  "str_strip s = rev (dropWhile is_space (rev (dropWhile is_space s)))"

definition lower_char :: "char \<Rightarrow> char" where
  "lower_char c =
     (let n = of_char c :: nat
      in if (65 \<le> n \<and> n \<le> 90) \<or> (192 \<le> n \<and> n \<le> 222 \<and> n \<noteq> 215)
         then char_of (n + 32) else c)"

definition str_lower :: "string \<Rightarrow> string" where
  "str_lower s = map lower_char s"

definition transform_row :: "raw_record \<Rightarrow> insured_row" where
  "transform_row r =
     \<lparr>age = age r, sex = sex r, bmi = bmi r, children = children r, smoker = smoker r,
      region = str_lower (str_strip (region r)), charges = charges r,
      age_band_col = age_band (age r), bmi_category_col = bmi_category (bmi r)\<rparr>"

definition transform :: "raw_record list \<Rightarrow> insured_row list" where
  "transform insurance = map transform_row insurance"

subsection \<open>Frame operations\<close>

text \<open>
  \<^verbatim>\<open>drop_duplicates()\<close> scans the rows in order and keeps a row when no equal row has
  been seen before.
\<close>

fun drop_duplicates_from :: "'a list \<Rightarrow> 'a list \<Rightarrow> 'a list" where
  "drop_duplicates_from seen [] = []"
| "drop_duplicates_from seen (x # xs) =
     (if x \<in> set seen then drop_duplicates_from seen xs
      else x # drop_duplicates_from (x # seen) xs)"

definition drop_duplicates :: "'a list \<Rightarrow> 'a list" where
  "drop_duplicates xs = drop_duplicates_from [] xs"

text \<open>
  \<^verbatim>\<open>left.merge(right, on=key, how="left")\<close>: the left rows in their order, each paired
  with every right row of the same key in the right frame's order, or with no right row
  (null columns) when none matches.
\<close>

definition merge_left :: "('a \<Rightarrow> 'k) \<Rightarrow> ('b \<Rightarrow> 'k) \<Rightarrow> 'a list \<Rightarrow> 'b list \<Rightarrow> ('a \<times> 'b option) list" where
  "merge_left kl kr left right =
     concat (map (\<lambda>l. case filter (\<lambda>r. kr r = kl l) right of
                          [] \<Rightarrow> [(l, None)]
                        | ms \<Rightarrow> map (\<lambda>r. (l, Some r)) ms) left)"

text \<open>
  \<^verbatim>\<open>reset_index(drop=True)\<close> followed by \<^verbatim>\<open>index + 1\<close> as the key column: a dimension
  table is the list of its rows, each paired with its surrogate key.
\<close>

definition assign_keys :: "'a list \<Rightarrow> ('a \<times> nat) list" where
  "assign_keys xs = zip xs [1..<Suc (length xs)]"

fun map_err :: "('a \<Rightarrow> error + 'b) \<Rightarrow> 'a list \<Rightarrow> error + 'b list" where
  "map_err f [] = Inr []"
| "map_err f (x # xs) = bind_err (f x) (\<lambda>y. bind_err (map_err f xs) (\<lambda>ys. Inr (y # ys)))"

section \<open>Dimension builders\<close>

subsection \<open>Region dimension\<close>

record region_row =
  rg_region :: string
  preferred_provider :: "string option"
  network_tier :: "string option"

text \<open>
  The join of the distinct source labels with the reference frame. A frame built from an
  empty list of region objects has no columns, and the merge on \<^verbatim>\<open>"region"\<close> raises
  \<^verbatim>\<open>KeyError\<close>.
\<close>

definition merge_providers :: "string list \<Rightarrow> provider list \<Rightarrow> error + region_row list" where
  "merge_providers labels providers =
     (if providers = [] then Inl (KeyError ''region'')
      else Inr (map (\<lambda>(l, m). \<lparr>rg_region = l,
                                 preferred_provider = map_option p_preferred_provider m,
                                 network_tier = map_option p_network_tier m\<rparr>)
                    (merge_left id p_region labels providers)))"

text \<open>
  \<^verbatim>\<open>sort_values("region")\<close> orders the rows by the region string, compared code point
  by code point. The model keeps rows of equal region in their order; pandas leaves that
  order open, and no property below depends on it.
\<close>

definition build_regions :: "insured_row list \<Rightarrow> provider list \<Rightarrow> error + (region_row \<times> nat) list" where
  "build_regions insured providers =
     bind_err (merge_providers (drop_duplicates (map region insured)) providers) (\<lambda>merged.
     Inr (assign_keys (sort_key rg_region merged)))"

definition build_regions_mysql :: "insured_row list \<Rightarrow> provider list \<Rightarrow> error + (region_row \<times> nat) list" where
  "build_regions_mysql insurance providers =
     bind_err (merge_providers (drop_duplicates (map region insurance)) providers) (\<lambda>merged.
     Inr (assign_keys (sort_key rg_region (drop_duplicates merged))))"

subsection \<open>Insured dimension\<close>

record profile =
  pf_age :: int
  pf_age_band :: string
  pf_sex :: string
  pf_smoker :: string
  pf_bmi :: pyfloat
  pf_bmi_category :: string
  pf_children :: int

definition profile_of :: "insured_row \<Rightarrow> profile" where
  "profile_of r =
     \<lparr>pf_age = age r, pf_age_band = age_band_col r, pf_sex = sex r, pf_smoker = smoker r,
      pf_bmi = bmi r, pf_bmi_category = bmi_category_col r, pf_children = children r\<rparr>"

definition build_insured_dim :: "insured_row list \<Rightarrow> (profile \<times> nat) list" where
  "build_insured_dim insured = assign_keys (drop_duplicates (map profile_of insured))"

section \<open>Fact builder\<close>

record enriched_row =
  source_row :: insured_row
  insured_key :: "nat option"
  region_key :: "nat option"

record fact_row =
  f_insured_key :: "nat option"
  f_region_key :: "nat option"
  f_date_key :: int
  f_charges :: pyfloat

record keyed_fact_row = fact_row +
  claim_key :: nat

text \<open>
  The two merges of the fact step, common to both pipelines: the insured key by the seven
  profile columns, then the region key by the region.
\<close>

definition enrich :: "insured_row list \<Rightarrow> (profile \<times> nat) list \<Rightarrow> (region_row \<times> nat) list \<Rightarrow> enriched_row list" where
  "enrich insured insured_dim regions =
     (let step1 = merge_left profile_of fst insured insured_dim;
          step2 = merge_left (\<lambda>(r, m). region r) (\<lambda>(g, k). rg_region g) step1 regions
      in map (\<lambda>((r, m), g). \<lparr>source_row = r, insured_key = map_option snd m,
                              region_key = map_option snd g\<rparr>) step2)"

definition make_fact_row :: "enriched_row \<Rightarrow> int \<Rightarrow> fact_row" where
  "make_fact_row e dk =
     \<lparr>f_insured_key = insured_key e, f_region_key = region_key e, f_date_key = dk,
      f_charges = charges (source_row e)\<rparr>"

text \<open>
  \<^verbatim>\<open>etl_pipeline_mysql.py\<close>: the row identifiers are \<^verbatim>\<open>range(1, len + 1)\<close>, the date key
  of a row is computed from its identifier, and the fact frame keeps four columns. The
  result is the list of row identifiers and the fact frame.
\<close>

definition build_fact_mysql :: "hexdigest \<Rightarrow> insured_row list \<Rightarrow> (profile \<times> nat) list \<Rightarrow> (region_row \<times> nat) list \<Rightarrow> error + (nat list \<times> fact_row list)" where
  "build_fact_mysql H insurance insured_dim regions =
     (let ins_enriched = enrich insurance insured_dim regions;
          row_id = [1..<Suc (length ins_enriched)]
      in bind_err (map_err (\<lambda>i. deterministc_date_for_row H (int i) 2010) row_id) (\<lambda>date_keys.
         Inr (row_id, map2 make_fact_row ins_enriched date_keys)))"

text \<open>
  \<^verbatim>\<open>etl_pipeline.py\<close> takes the row identifiers and the claim keys from \<^verbatim>\<open>np.arange\<close>.
  A name is looked up among the names bound in the module and the builtins it uses;
  a name bound nowhere raises \<^verbatim>\<open>NameError\<close>.
\<close>

definition module_names :: "string list" where
  "module_names = [''os'', ''json'', ''sqlite3'', ''random'', ''hashlib'', ''pd'', ''datetime'',
     ''timedelta'', ''PROJECT_ROOT'', ''DATA_DIR'', ''SQL_DIR'', ''SOURCES_DIR'', ''MART_DB'',
     ''CLASSICMODELS_DB'', ''exec_sql_script'', ''build_classicmodels_sqlite'', ''make_date_dim'',
     ''age_band'', ''bmi_category'', ''deterministc_date_for_row'', ''main'']"

definition builtin_names :: "string list" where
  "builtin_names = [''open'', ''print'', ''len'', ''int'', ''str'', ''Exception'']"

definition lookup_name :: "string \<Rightarrow> error + unit" where
  "lookup_name n =
     (if n \<in> set module_names \<or> n \<in> set builtin_names then Inr () else Inl (NameError n))"

definition build_fact :: "hexdigest \<Rightarrow> insured_row list \<Rightarrow> (profile \<times> nat) list \<Rightarrow> (region_row \<times> nat) list \<Rightarrow> error + keyed_fact_row list" where
  "build_fact H insured insured_dim regions =
     (let ins_enriched = enrich insured insured_dim regions
      in bind_err (lookup_name ''np'') (\<lambda>_.
         let row_id = [1..<Suc (length ins_enriched)]
         in bind_err (map_err (\<lambda>i. deterministc_date_for_row H (int i) 2010) row_id) (\<lambda>date_keys.
            let fact = map2 make_fact_row ins_enriched date_keys
            in bind_err (lookup_name ''np'') (\<lambda>_.
               Inr (map2 (\<lambda>f k. \<lparr>f_insured_key = f_insured_key f, f_region_key = f_region_key f,
                                  f_date_key = f_date_key f, f_charges = f_charges f,
                                  claim_key = k\<rparr>)
                         fact [1..<Suc (length fact)])))))"

section \<open>The two pipelines\<close>

text \<open>
  The transform stage of \<^verbatim>\<open>main\<close>, from the two frames read in by the extract stage
  to the four tables handed to the load stage. A result \<open>Inr\<close> means that the load
  stage is reached.
\<close>

record 'f mart =
  dim_date :: "date_row list"
  insured_dim :: "(profile \<times> nat) list"
  regions :: "(region_row \<times> nat) list"
  fact :: "'f"

definition date_2010_01_01 :: date where
  "date_2010_01_01 = \<lparr>year = 2010, month = 1, day = 1\<rparr>"

definition date_2010_12_31 :: date where
  "date_2010_12_31 = \<lparr>year = 2010, month = 12, day = 31\<rparr>"

definition main_sqlite :: "hexdigest \<Rightarrow> raw_record list \<Rightarrow> provider list \<Rightarrow> error + (keyed_fact_row list) mart" where
  "main_sqlite H insurance providers =
     (let insured = transform insurance
      in bind_err (build_regions insured providers) (\<lambda>rg.
         let idim = build_insured_dim insured
         in bind_err (make_date_dim date_2010_01_01 date_2010_12_31) (\<lambda>dd.
            bind_err (build_fact H insured idim rg) (\<lambda>f.
            Inr \<lparr>dim_date = dd, insured_dim = idim, regions = rg, fact = f\<rparr>))))"

definition main_mysql :: "hexdigest \<Rightarrow> raw_record list \<Rightarrow> provider list \<Rightarrow> error + (nat list \<times> fact_row list) mart" where
  "main_mysql H insurance providers =
     (let insured = transform insurance
      in bind_err (build_regions_mysql insured providers) (\<lambda>rg.
         let idim = build_insured_dim insured
         in bind_err (make_date_dim date_2010_01_01 date_2010_12_31) (\<lambda>dd.
            bind_err (build_fact_mysql H insured idim rg) (\<lambda>f.
            Inr \<lparr>dim_date = dd, insured_dim = idim, regions = rg, fact = f\<rparr>))))"

section \<open>Notions used to state the properties\<close>

text \<open>
  \<open>first_index xs x\<close> is the number of rows before the first occurrence of \<open>x\<close>.
  \<open>joined_rows providers l\<close> are the rows a left join gives the label \<open>l\<close>: one row per
  reference entry whose region is \<open>l\<close>, or one row with null attributes when there is
  none. \<open>normalized_labels\<close> are the stripped and lower-cased region labels of the raw
  records.
\<close>

definition first_index :: "'a list \<Rightarrow> 'a \<Rightarrow> nat" where
  "first_index xs x = length (takeWhile (\<lambda>y. y \<noteq> x) xs)"

definition joined_rows :: "provider list \<Rightarrow> string \<Rightarrow> region_row list" where
  "joined_rows providers l =
     (case filter (\<lambda>p. p_region p = l) providers of
        [] \<Rightarrow> [\<lparr>rg_region = l, preferred_provider = None, network_tier = None\<rparr>]
      | ms \<Rightarrow> map (\<lambda>p. \<lparr>rg_region = l, preferred_provider = Some (p_preferred_provider p),
                          network_tier = Some (p_network_tier p)\<rparr>) ms)"

definition normalized_labels :: "raw_record list \<Rightarrow> string set" where
  "normalized_labels insurance = (\<lambda>r. str_lower (str_strip (region r))) ` set insurance"

text \<open>
  What the specification asks of the region dimension: surrogate keys 1..N in row order,
  rows sorted by region, exactly the normalized source labels as regions, the attributes
  of a row taken from a reference entry of the same region when there is one and null
  otherwise, every matching reference entry represented, and exactly one row for a
  label without a match.
\<close>

definition is_region_dimension :: "raw_record list \<Rightarrow> provider list \<Rightarrow> (region_row \<times> nat) list \<Rightarrow> bool" where
  "is_region_dimension insurance providers rg \<longleftrightarrow>
     map snd rg = [1..<Suc (length rg)] \<and>
     sorted (map rg_region (map fst rg)) \<and>
     rg_region ` fst ` set rg = normalized_labels insurance \<and>
     (\<forall>g\<in>fst ` set rg.
        if \<exists>p\<in>set providers. p_region p = rg_region g
        then \<exists>p\<in>set providers. p_region p = rg_region g
               \<and> preferred_provider g = Some (p_preferred_provider p)
               \<and> network_tier g = Some (p_network_tier p)
        else preferred_provider g = None \<and> network_tier g = None) \<and>
     (\<forall>p\<in>set providers. p_region p \<in> normalized_labels insurance \<longrightarrow>
        \<lparr>rg_region = p_region p, preferred_provider = Some (p_preferred_provider p),
         network_tier = Some (p_network_tier p)\<rparr> \<in> fst ` set rg) \<and>
     (\<forall>l\<in>normalized_labels insurance. \<not> (\<exists>p\<in>set providers. p_region p = l) \<longrightarrow>
        length (filter (\<lambda>g. rg_region g = l) (map fst rg)) = 1)"

section \<open>Example data\<close>

text \<open>
  \<open>scenario\<close> are the three raw records of the end-to-end scenario of the specification.
  The reference datasets are examples: one with an entry for each region, one with two
  entries for the same region, and one whose region strings are not normalized.
\<close>

definition scenario :: "raw_record list" where
  "scenario =
     [\<lparr>age = 25, sex = ''F'', bmi = Finite 22, children = 0, smoker = ''no'',
       region = '' East '', charges = Finite 1000\<rparr>,
      \<lparr>age = 70, sex = ''M'', bmi = Finite 31, children = 2, smoker = ''yes'',
       region = ''east'', charges = Finite 5000\<rparr>,
      \<lparr>age = 25, sex = ''F'', bmi = Finite 22, children = 0, smoker = ''no'',
       region = ''west'', charges = Finite 1200\<rparr>]"

definition example_providers :: "provider list" where
  "example_providers =
     [\<lparr>p_region = ''west'', p_preferred_provider = ''Provider W'', p_network_tier = ''Silver''\<rparr>,
      \<lparr>p_region = ''east'', p_preferred_provider = ''Provider E'', p_network_tier = ''Gold''\<rparr>]"

definition duplicated_providers :: "provider list" where
  "duplicated_providers =
     [\<lparr>p_region = ''east'', p_preferred_provider = ''Provider E'', p_network_tier = ''Gold''\<rparr>,
      \<lparr>p_region = ''east'', p_preferred_provider = ''Provider F'', p_network_tier = ''Silver''\<rparr>]"

definition unnormalized_providers :: "provider list" where
  "unnormalized_providers =
     [\<lparr>p_region = ''East'', p_preferred_provider = ''Provider E'', p_network_tier = ''Gold''\<rparr>,
      \<lparr>p_region = '' east '', p_preferred_provider = ''Provider F'', p_network_tier = ''Silver''\<rparr>,
      \<lparr>p_region = ''WEST'', p_preferred_provider = ''Provider W'', p_network_tier = ''Silver''\<rparr>]"

section \<open>Properties of the classifiers\<close>

lemma age_band_cases:
  "age_band a =
     (if 0 \<le> a \<and> a \<le> 17 then ''0-17''
      else if 18 \<le> a \<and> a \<le> 24 then ''18-24''
      else if 25 \<le> a \<and> a \<le> 34 then ''25-34''
      else if 35 \<le> a \<and> a \<le> 44 then ''35-44''
      else if 45 \<le> a \<and> a \<le> 54 then ''45-54''
      else if 55 \<le> a \<and> a \<le> 64 then ''55-64''
      else if 65 \<le> a \<and> a \<le> 200 then ''65+''
      else ''unknown'')"
  by (simp add: age_band_def bins_def)


text \<open>
  Claim C5, as amended. \<open>age_band\<close> labels the ages 0 to 17, 18 to 24, 25 to 34, 35 to 44,
  45 to 54, 55 to 64 and 65 to 200 with the seven labels, and every other integer
  (negative, or above 200) with \<^verbatim>\<open>"unknown"\<close>: the last bin of the source ends at 200.
\<close>

theorem age_band_ranges:
  "(0 \<le> a \<and> a \<le> 17 \<longrightarrow> age_band a = ''0-17'') \<and>
   (18 \<le> a \<and> a \<le> 24 \<longrightarrow> age_band a = ''18-24'') \<and>
   (25 \<le> a \<and> a \<le> 34 \<longrightarrow> age_band a = ''25-34'') \<and>
   (35 \<le> a \<and> a \<le> 44 \<longrightarrow> age_band a = ''35-44'') \<and>
   (45 \<le> a \<and> a \<le> 54 \<longrightarrow> age_band a = ''45-54'') \<and>
   (55 \<le> a \<and> a \<le> 64 \<longrightarrow> age_band a = ''55-64'') \<and>
   (65 \<le> a \<and> a \<le> 200 \<longrightarrow> age_band a = ''65+'') \<and>
   (age_band a = ''unknown'' \<longleftrightarrow> a < 0 \<or> 200 < a)"
  unfolding age_band_cases by (simp; linarith)

theorem age_band_ranges_witness:
  "age_band 0 = ''0-17'' \<and> age_band 17 = ''0-17'' \<and> age_band 18 = ''18-24'' \<and>
   age_band 24 = ''18-24'' \<and> age_band 25 = ''25-34'' \<and> age_band 35 = ''35-44'' \<and>
   age_band 45 = ''45-54'' \<and> age_band 55 = ''55-64'' \<and> age_band 64 = ''55-64'' \<and>
   age_band 65 = ''65+'' \<and> age_band 200 = ''65+'' \<and>
   age_band 201 = ''unknown'' \<and> age_band (- 1) = ''unknown''"
  using age_band_ranges [of 0] age_band_ranges [of 17] age_band_ranges [of 18]
    age_band_ranges [of 24] age_band_ranges [of 25] age_band_ranges [of 35]
    age_band_ranges [of 45] age_band_ranges [of 55] age_band_ranges [of 64]
    age_band_ranges [of 65] age_band_ranges [of 200] age_band_ranges [of 201]
    age_band_ranges [of "- 1"]
  by simp

text \<open>
  The claim as stated gives \<^verbatim>\<open>"65+"\<close> to every age from 65 on. The age 201 is in no bin.
\<close>

theorem age_band_above_200_counterexample:
  "\<not> (65 \<le> (201::int) \<longrightarrow> age_band 201 = ''65+'')"
  by (simp add: age_band_cases)

text \<open>
  Claim C6. For every float \<open>b \<ge> 0\<close> (a finite value or plus infinity; NaN compares
  false), \<open>bmi_category b\<close> is \<^verbatim>\<open>"Underweight"\<close> below 18.5, \<^verbatim>\<open>"Normal"\<close> from 18.5
  up to but excluding 25, \<^verbatim>\<open>"Overweight"\<close> from 25 up to but excluding 30, and
  \<^verbatim>\<open>"Obese"\<close> from 30 on.
\<close>

theorem bmi_category_ranges:
  assumes "float_le (Finite 0) b"
  shows "(float_lt b (Finite (37 / 2)) \<longrightarrow> bmi_category b = ''Underweight'') \<and>
         (float_le (Finite (37 / 2)) b \<and> float_lt b (Finite 25) \<longrightarrow> bmi_category b = ''Normal'') \<and>
         (float_le (Finite 25) b \<and> float_lt b (Finite 30) \<longrightarrow> bmi_category b = ''Overweight'') \<and>
         (float_le (Finite 30) b \<longrightarrow> bmi_category b = ''Obese'')"
  using assms by (cases b) (auto simp: bmi_category_def)

theorem bmi_category_ranges_witness:
  "bmi_category (Finite (179 / 10)) = ''Underweight'' \<and>
   bmi_category (Finite (37 / 2)) = ''Normal'' \<and>
   bmi_category (Finite (2499 / 100)) = ''Normal'' \<and>
   bmi_category (Finite 25) = ''Overweight'' \<and>
   bmi_category (Finite (2999 / 100)) = ''Overweight'' \<and>
   bmi_category (Finite 30) = ''Obese'' \<and>
   bmi_category PosInf = ''Obese''"
  using bmi_category_ranges [of "Finite (179 / 10)"] bmi_category_ranges [of "Finite (37 / 2)"]
    bmi_category_ranges [of "Finite (2499 / 100)"] bmi_category_ranges [of "Finite 25"]
    bmi_category_ranges [of "Finite (2999 / 100)"] bmi_category_ranges [of "Finite 30"]
    bmi_category_ranges [of PosInf]
  by simp

section \<open>Decimal strings\<close>

lemma int_of_dec_snoc: "int_of_dec (s @ [c]) = 10 * int_of_dec s + (of_char c - 48)"
  by (simp add: int_of_dec_def)

lemma of_char_int: "(of_char c :: int) = int (of_char c)"
  by (simp add: of_char_def)

lemma of_char_digit: "d < 10 \<Longrightarrow> (of_char (char_of (48 + d :: nat)) :: int) = 48 + int d"
  by (simp add: of_char_int)

lemma int_of_dec_dec: "int_of_dec (dec n) = int n"
proof (induction n rule: dec.induct)
  case (1 n)
  show ?case
  proof (cases "n < 10")
    case True
    then show ?thesis
      by (subst dec.simps) (simp add: int_of_dec_def of_char_digit)
  next
    case False
    have "int_of_dec (dec n) = 10 * int_of_dec (dec (n div 10)) + (of_char (char_of (48 + n mod 10)) - 48)"
      using False by (subst dec.simps) (simp add: int_of_dec_snoc)
    also have "\<dots> = 10 * int (n div 10) + int (n mod 10)"
      using 1 False by (simp add: of_char_digit)
    also have "\<dots> = int n" by presburger
    finally show ?thesis .
  qed
qed

lemma int_of_dec_append:
  "int_of_dec (a @ b) = int_of_dec a * 10 ^ length b + int_of_dec b"
proof (induction b rule: rev_induct)
  case Nil
  then show ?case by (simp add: int_of_dec_def)
next
  case (snoc c b)
  have "int_of_dec (a @ b @ [c]) = 10 * int_of_dec (a @ b) + (of_char c - 48)"
    using int_of_dec_snoc [of "a @ b" c] by simp
  then show ?case using snoc by (simp add: int_of_dec_snoc algebra_simps)
qed

lemma int_of_dec_zeros: "int_of_dec (replicate k CHR ''0'') = 0"
  by (induction k) (simp_all add: int_of_dec_def)

lemma int_of_dec_zfill: "int_of_dec (zfill k s) = int_of_dec s"
  by (simp add: zfill_def int_of_dec_append int_of_dec_zeros)

lemma length_dec_10: "n < 10 \<Longrightarrow> length (dec n) = 1"
  by (subst dec.simps) simp

lemma length_dec_100: "n < 100 \<Longrightarrow> length (dec n) \<le> 2"
  using length_dec_10 [of "n div 10"] by (subst dec.simps) simp

lemma length_dec_1000: "n < 1000 \<Longrightarrow> length (dec n) \<le> 3"
  using length_dec_100 [of "n div 10"] by (subst dec.simps) simp

lemma length_dec_10000: "n < 10000 \<Longrightarrow> length (dec n) \<le> 4"
  using length_dec_1000 [of "n div 10"] by (subst dec.simps) simp

lemma length_zfill: "length s \<le> k \<Longrightarrow> length (zfill k s) = k"
  by (simp add: zfill_def)

lemma days_in_month_le: "days_in_month y m \<le> 31"
  by (simp add: days_in_month_def)

lemma strftime_key:
  assumes "valid_date d"
  shows "int_of_dec (strftime_Ymd d) = year d * 10000 + month d * 100 + day d"
proof -
  have y: "nat (year d) < 10000" and m: "nat (month d) < 100" and dd: "nat (day d) < 100"
    using assms days_in_month_le [of "year d" "month d"] by (auto simp: valid_date_def)
  have l2: "length (zfill 2 (dec (nat (day d)))) = 2" "length (zfill 2 (dec (nat (month d)))) = 2"
    using length_dec_100 m dd by (simp_all add: length_zfill)
  have pos: "0 \<le> year d" "0 \<le> month d" "0 \<le> day d"
    using assms by (auto simp: valid_date_def)
  show ?thesis
    unfolding strftime_Ymd_def
    using l2 pos by (simp add: int_of_dec_append int_of_dec_zfill int_of_dec_dec)
qed

section \<open>Ordinals of calendar dates\<close>

lemma div_step:
  assumes "0 < (k::int)"
  shows "(y - 1) div k = y div k - (if y mod k = 0 then 1 else 0)"
proof (cases "y mod k = 0")
  case True
  have "y - 1 = k * (y div k - 1) + (k - 1)"
    using True mult_div_mod_eq [of k y] by (simp add: algebra_simps)
  then have "(y - 1) div k = y div k - 1"
    by (rule int_div_pos_eq) (use assms in auto)
  then show ?thesis using True by simp
next
  case False
  then have pos: "0 < y mod k"
    using assms pos_mod_sign [of k y] by (simp add: less_le)
  have "y - 1 = k * (y div k) + (y mod k - 1)"
    using mult_div_mod_eq [of k y] by simp
  then have "(y - 1) div k = y div k"
    by (rule int_div_pos_eq) (use pos pos_mod_bound [OF assms, of y] in auto)
  then show ?thesis using False by simp
qed

lemma mod_100_4: "(y::int) mod 100 = 0 \<Longrightarrow> y mod 4 = 0"
  using mod_mod_cancel [of 4 100 y] by simp

lemma mod_400_100: "(y::int) mod 400 = 0 \<Longrightarrow> y mod 100 = 0"
  using mod_mod_cancel [of 100 400 y] by simp

lemma days_before_year_step:
  "days_before_year (y + 1) = days_before_year y + (if is_leap y then 366 else 365)"
proof -
  define a where "a = y div 4"
  define b where "b = y div 100"
  define c where "c = y div 400"
  have e4: "(y - 1) div 4 = a - (if y mod 4 = 0 then 1 else 0)"
    unfolding a_def by (rule div_step) simp
  have e100: "(y - 1) div 100 = b - (if y mod 100 = 0 then 1 else 0)"
    unfolding b_def by (rule div_step) simp
  have e400: "(y - 1) div 400 = c - (if y mod 400 = 0 then 1 else 0)"
    unfolding c_def by (rule div_step) simp
  have lhs: "days_before_year (y + 1) = y * 365 + a - b + c"
    by (simp add: days_before_year_def a_def b_def c_def)
  have rhs: "days_before_year y = (y - 1) * 365 + (a - (if y mod 4 = 0 then 1 else 0))
      - (b - (if y mod 100 = 0 then 1 else 0)) + (c - (if y mod 400 = 0 then 1 else 0))"
    by (simp only: days_before_year_def e4 e100 e400)
  show ?thesis
  proof (cases "y mod 4 = 0")
    case m4: True
    show ?thesis
    proof (cases "y mod 100 = 0")
      case m100: True
      show ?thesis
      proof (cases "y mod 400 = 0")
        case True
        then show ?thesis unfolding lhs rhs is_leap_def using m4 m100 by (simp add: algebra_simps)
      next
        case False
        then show ?thesis unfolding lhs rhs is_leap_def using m4 m100 by (simp add: algebra_simps)
      qed
    next
      case False
      then have "y mod 400 \<noteq> 0" using mod_400_100 [of y] by auto
      then show ?thesis unfolding lhs rhs is_leap_def using m4 False by (simp add: algebra_simps)
    qed
  next
    case False
    then have n100: "y mod 100 \<noteq> 0" using mod_100_4 [of y] by auto
    then have "y mod 400 \<noteq> 0" using mod_400_100 [of y] by auto
    then show ?thesis unfolding lhs rhs is_leap_def using n100 False by (simp add: algebra_simps)
  qed
qed

lemma days_before_year_mono: "y1 \<le> y2 \<Longrightarrow> days_before_year y1 \<le> days_before_year y2"
proof (induction y2 rule: int_ge_induct)
  case base
  then show ?case by simp
next
  case (step i)
  then show ?case using days_before_year_step [of i] by (simp split: if_splits)
qed

lemma month_cases:
  assumes "1 \<le> m" "m \<le> (12::int)"
  shows "m = 1 \<or> m = 2 \<or> m = 3 \<or> m = 4 \<or> m = 5 \<or> m = 6 \<or> m = 7 \<or> m = 8 \<or> m = 9 \<or> m = 10 \<or> m = 11 \<or> m = 12"
  using assms by arith

lemma days_before_month_step:
  assumes "1 \<le> m" "m < 12"
  shows "days_before_month y (m + 1) = days_before_month y m + days_in_month y m"
proof -
  have "m = 1 \<or> m = 2 \<or> m = 3 \<or> m = 4 \<or> m = 5 \<or> m = 6 \<or> m = 7 \<or> m = 8 \<or> m = 9 \<or> m = 10 \<or> m = 11"
    using assms by arith
  then show ?thesis
    by (elim disjE) (simp_all add: days_before_month_def days_in_month_def)
qed

lemma days_before_month_1: "days_before_month y 1 = 0"
  by (simp add: days_before_month_def)

lemma days_before_month_12:
  "days_before_month y 12 + 31 = (if is_leap y then 366 else 365)"
  by (simp add: days_before_month_def)

lemma days_in_month_ge: "28 \<le> days_in_month y m"
  by (simp add: days_in_month_def)

lemma days_before_month_mono:
  assumes "1 \<le> m1" "m1 \<le> m2" "m2 \<le> 12"
  shows "days_before_month y m1 \<le> days_before_month y m2"
  using assms(2,1,3)
proof (induction m2 rule: int_ge_induct)
  case base
  then show ?case by simp
next
  case (step i)
  then show ?case
    using days_before_month_step [of i y] days_in_month_ge [of y i] by simp
qed

lemma toordinal_add_one_day:
  assumes "valid_date d" "add_one_day d = Inr d'"
  shows "toordinal d' = toordinal d + 1 \<and> valid_date d'"
proof -
  consider (a) "day d < days_in_month (year d) (month d)"
    | (b) "day d = days_in_month (year d) (month d)" "month d < 12"
    | (c) "day d = days_in_month (year d) (month d)" "month d = 12" "year d < 9999"
    using assms by (auto simp: valid_date_def add_one_day_def split: if_splits)
  then show ?thesis
  proof cases
    case a
    then have "d' = d\<lparr>day := day d + 1\<rparr>" using assms by (simp add: add_one_day_def)
    then show ?thesis using a assms(1) by (simp add: toordinal_def valid_date_def)
  next
    case b
    then have d': "d' = d\<lparr>month := month d + 1, day := 1\<rparr>"
      using assms by (simp add: add_one_day_def)
    have "1 \<le> month d" using assms(1) by (simp add: valid_date_def)
    then show ?thesis
      using b assms(1) d' days_before_month_step [of "month d" "year d"]
        days_in_month_ge [of "year d" "month d + 1"]
      by (simp add: toordinal_def valid_date_def)
  next
    case c
    then have d': "d' = \<lparr>year = year d + 1, month = 1, day = 1\<rparr>"
      using assms by (simp add: add_one_day_def)
    have "day d = 31" using c by (simp add: days_in_month_def)
    then show ?thesis
      using c assms(1) d' days_before_year_step [of "year d"] days_before_month_12 [of "year d"]
      by (simp add: toordinal_def valid_date_def days_before_month_1 days_in_month_def
          split: if_splits)
  qed
qed

lemma add_one_day_ok:
  assumes "valid_date d" "d \<noteq> \<lparr>year = 9999, month = 12, day = 31\<rparr>"
  shows "\<exists>d'. add_one_day d = Inr d'"
proof (rule ccontr)
  assume "\<not> ?thesis"
  then have "\<not> day d < days_in_month (year d) (month d)" "\<not> month d < 12" "\<not> year d < 9999"
    by (auto simp: add_one_day_def split: if_splits)
  then have "year d = 9999" "month d = 12" "day d = 31"
    using assms(1) by (auto simp: valid_date_def days_in_month_def split: if_splits)
  then have "d = \<lparr>year = 9999, month = 12, day = 31\<rparr>" by simp
  then show False using assms(2) by simp
qed

lemma toordinal_in_year:
  assumes "valid_date d"
  shows "days_before_year (year d) + 1 \<le> toordinal d"
    and "toordinal d \<le> days_before_year (year d) + (if is_leap (year d) then 366 else 365)"
proof -
  have m: "1 \<le> month d" "month d \<le> 12" and dd: "1 \<le> day d" "day d \<le> days_in_month (year d) (month d)"
    using assms by (auto simp: valid_date_def)
  have "days_before_month (year d) 1 \<le> days_before_month (year d) (month d)"
    using m by (intro days_before_month_mono) auto
  then show "days_before_year (year d) + 1 \<le> toordinal d"
    using dd by (simp add: toordinal_def days_before_month_1)
  have "days_before_month (year d) (month d) + days_in_month (year d) (month d)
          \<le> (if is_leap (year d) then 366 else 365)"
  proof (cases "month d = 12")
    case True
    then show ?thesis using days_before_month_12 [of "year d"] by (simp add: days_in_month_def)
  next
    case False
    then have "month d < 12" using m by simp
    then have "days_before_month (year d) (month d) + days_in_month (year d) (month d)
                 = days_before_month (year d) (month d + 1)"
      using m days_before_month_step by simp
    also have "\<dots> \<le> days_before_month (year d) 12"
      using m \<open>month d < 12\<close> by (intro days_before_month_mono) auto
    finally show ?thesis using days_before_month_12 [of "year d"] by (simp split: if_splits)
  qed
  then show "toordinal d \<le> days_before_year (year d) + (if is_leap (year d) then 366 else 365)"
    using dd by (simp add: toordinal_def split: if_splits)
qed

lemma toordinal_strict_mono:
  assumes "valid_date a" "valid_date b" "\<not> date_le b a"
  shows "toordinal a < toordinal b"
proof -
  have "year a < year b \<or> (year a = year b \<and> month a < month b)
          \<or> (year a = year b \<and> month a = month b \<and> day a < day b)"
    using assms(3) unfolding date_le_def by arith
  then consider (y) "year a < year b"
    | (m) "year a = year b" "month a < month b"
    | (d) "year a = year b" "month a = month b" "day a < day b"
    by blast
  then show ?thesis
  proof cases
    case y
    have "toordinal a \<le> days_before_year (year a + 1)"
      using toordinal_in_year(2) [OF assms(1)] days_before_year_step [of "year a"] by simp
    also have "\<dots> \<le> days_before_year (year b)"
      using y by (intro days_before_year_mono) simp
    also have "\<dots> < toordinal b" using toordinal_in_year(1) [OF assms(2)] by simp
    finally show ?thesis .
  next
    case m
    have ma: "1 \<le> month a" and mb: "month b \<le> 12" and da: "day a \<le> days_in_month (year a) (month a)"
      and db: "1 \<le> day b"
      using assms by (auto simp: valid_date_def)
    have "days_before_month (year a) (month a) + days_in_month (year a) (month a)
            = days_before_month (year a) (month a + 1)"
      using ma mb m days_before_month_step by simp
    also have "\<dots> \<le> days_before_month (year a) (month b)"
      using ma mb m by (intro days_before_month_mono) auto
    finally show ?thesis using m da db by (simp add: toordinal_def)
  next
    case d
    then show ?thesis by (simp add: toordinal_def)
  qed
qed

lemma date_le_toordinal:
  assumes "valid_date a" "valid_date b"
  shows "date_le a b \<longleftrightarrow> toordinal a \<le> toordinal b"
proof
  assume le: "date_le a b"
  show "toordinal a \<le> toordinal b"
  proof (cases "date_le b a")
    case True
    with le have "year a = year b" "month a = month b" "day a = day b"
      by (auto simp: date_le_def)
    then show ?thesis by (simp add: toordinal_def)
  next
    case False
    then show ?thesis using toordinal_strict_mono [OF assms] by simp
  qed
next
  assume "toordinal a \<le> toordinal b"
  then show "date_le a b"
    using toordinal_strict_mono [OF assms(2) assms(1)] by fastforce
qed

lemma date_lt_cases:
  assumes "\<not> date_le b a"
  shows "year a < year b \<or> (year a = year b \<and> month a < month b)
          \<or> (year a = year b \<and> month a = month b \<and> day a < day b)"
  using assms unfolding date_le_def by arith

lemma date_key_strict_mono:
  assumes "valid_date a" "valid_date b" "\<not> date_le b a"
  shows "int_of_dec (strftime_Ymd a) < int_of_dec (strftime_Ymd b)"
proof -
  have bnd: "month a \<le> 12" "day a \<le> 31" "1 \<le> month b" "1 \<le> day b"
    using assms(1,2) days_in_month_le [of "year a" "month a"] by (auto simp: valid_date_def)
  have "year a * 10000 + month a * 100 + day a < year b * 10000 + month b * 100 + day b"
    using date_lt_cases [OF assms(3)] bnd by linarith
  then show ?thesis by (simp only: strftime_key [OF assms(1)] strftime_key [OF assms(2)])
qed

section \<open>Adding days and the loop of the date dimension\<close>

lemma valid_date_max: "valid_date date_max"
  by (simp add: date_max_def valid_date_def days_in_month_def)

lemma date_le_max: "valid_date d \<Longrightarrow> date_le d date_max"
  using days_in_month_le [of "year d" "month d"]
  unfolding valid_date_def date_le_def date_max_def by simp arith

lemma add_one_day_ok':
  assumes "valid_date d" "d \<noteq> date_max"
  shows "\<exists>d'. add_one_day d = Inr d'"
  using add_one_day_ok assms unfolding date_max_def by blast

lemma below_end_not_max:
  assumes "valid_date cur" "valid_date e" "e \<noteq> date_max" "date_le cur e"
  shows "cur \<noteq> date_max"
proof
  assume "cur = date_max"
  then have "toordinal date_max \<le> toordinal e"
    using assms date_le_toordinal by blast
  moreover have "toordinal e \<le> toordinal date_max"
    using assms(2) date_le_max date_le_toordinal valid_date_max by blast
  ultimately have "\<not> \<not> date_le date_max e \<and> \<not> \<not> date_le e date_max"
    using assms(2) valid_date_max date_le_toordinal by blast
  then have "year e = 9999 \<and> month e = 12 \<and> day e = 31"
    unfolding date_le_def date_max_def by simp arith
  then have "e = date_max" by (simp add: date_max_def)
  then show False using assms(3) by simp
qed

lemma loop_general:
  assumes "valid_date e" "e \<noteq> date_max" "valid_date cur"
  shows "\<exists>ds. make_date_dim_loop cur e rows = Inr (rows @ map make_date_row ds)
            \<and> (\<forall>d\<in>set ds. valid_date d)
            \<and> map toordinal ds = [toordinal cur..toordinal e]"
  using assms
proof (induction cur e rows rule: make_date_dim_loop.induct)
  case (1 cur e rows)
  show ?case
  proof (cases "date_le cur e")
    case False
    then have "toordinal e < toordinal cur"
      using "1.prems" date_le_toordinal by fastforce
    then have "make_date_dim_loop cur e rows = Inr (rows @ map make_date_row [])
                 \<and> map toordinal [] = [toordinal cur..toordinal e]"
      using False by (subst make_date_dim_loop.simps) simp
    then show ?thesis by (intro exI [of _ "[]"]) simp
  next
    case True
    then have "cur \<noteq> date_max" using "1.prems" below_end_not_max by blast
    then obtain nxt where nxt: "add_one_day cur = Inr nxt"
      using "1.prems" add_one_day_ok' by blast
    then have vn: "valid_date nxt" and on: "toordinal nxt = toordinal cur + 1"
      using "1.prems" toordinal_add_one_day by blast+
    obtain ds where ds: "make_date_dim_loop nxt e (rows @ [make_date_row cur])
                            = Inr ((rows @ [make_date_row cur]) @ map make_date_row ds)"
        "\<forall>d\<in>set ds. valid_date d" "map toordinal ds = [toordinal nxt..toordinal e]"
      using "1.IH" [OF True nxt "1.prems"(1,2) vn] by blast
    have le: "toordinal cur \<le> toordinal e"
      using True "1.prems" date_le_toordinal by blast
    have "make_date_dim_loop cur e rows = Inr (rows @ map make_date_row (cur # ds))"
      using True nxt ds(1) by (subst make_date_dim_loop.simps) simp
    moreover have "map toordinal (cur # ds) = [toordinal cur..toordinal e]"
      using ds(3) on le by (simp add: upto_rec1)
    moreover have "\<forall>d\<in>set (cur # ds). valid_date d"
      using ds(2) "1.prems" by simp
    ultimately show ?thesis by blast
  qed
qed

lemma add_days_ok:
  assumes "valid_date d" "toordinal d + int n \<le> toordinal date_max"
  shows "\<exists>d'. add_days n d = Inr d' \<and> valid_date d' \<and> toordinal d' = toordinal d + int n"
  using assms
proof (induction n arbitrary: d)
  case 0
  then show ?case by simp
next
  case (Suc n)
  then have "d \<noteq> date_max" by auto
  then obtain d1 where d1: "add_one_day d = Inr d1"
    using Suc.prems add_one_day_ok' by blast
  then have v1: "valid_date d1" and o1: "toordinal d1 = toordinal d + 1"
    using Suc.prems toordinal_add_one_day by blast+
  then obtain d' where "add_days n d1 = Inr d'" "valid_date d'" "toordinal d' = toordinal d1 + int n"
    using Suc.IH [of d1] Suc.prems(2) by auto
  then show ?case using d1 o1 by (simp add: bind_err_def)
qed

lemma weekday_range: "0 \<le> weekday d \<and> weekday d < 7"
  by (simp add: weekday_def)

lemma weekend_row:
  "(is_weekend (make_date_row d) = 1 \<longleftrightarrow>
      day_name (make_date_row d) = ''Saturday'' \<or> day_name (make_date_row d) = ''Sunday'') \<and>
   (is_weekend (make_date_row d) = 1 \<longleftrightarrow>
      day_of_week (make_date_row d) = 6 \<or> day_of_week (make_date_row d) = 7) \<and>
   (is_weekend (make_date_row d) = 0 \<or> is_weekend (make_date_row d) = 1)"
proof -
  define t where "t = toordinal d"
  have "t mod 7 = 0 \<or> t mod 7 = 1 \<or> t mod 7 = 2 \<or> t mod 7 = 3 \<or> t mod 7 = 4 \<or> t mod 7 = 5 \<or> t mod 7 = 6"
    by presburger
  moreover have "(t + 6) mod 7 = (t mod 7 + 6) mod 7" by presburger
  ultimately show ?thesis
    unfolding make_date_row_def weekday_def isoweekday_def t_def [symmetric]
    by (elim disjE) (simp_all add: day_names_def)
qed

section \<open>Properties of the date dimension and of the date assigner\<close>

lemma sorted_keys:
  assumes "\<forall>d\<in>set ds. valid_date d" "map toordinal ds = [a..b]"
  shows "sorted_wrt (<) (map (\<lambda>d. date_key (make_date_row d)) ds)"
proof -
  have "sorted_wrt (<) (map toordinal ds)"
    unfolding assms(2) by (simp add: strict_sorted_iff)
  then have "sorted_wrt (\<lambda>x y. toordinal x < toordinal y) ds"
    by (simp add: sorted_wrt_map)
  then have "sorted_wrt (\<lambda>x y. date_key (make_date_row x) < date_key (make_date_row y)) ds"
  proof (rule sorted_wrt_mono_rel [rotated])
    fix x y assume "x \<in> set ds" "y \<in> set ds" "toordinal x < toordinal y"
    then have "valid_date x" "valid_date y" "\<not> date_le y x"
      using assms(1) date_le_toordinal by fastforce+
    then show "date_key (make_date_row x) < date_key (make_date_row y)"
      using date_key_strict_mono by (simp add: make_date_row_def)
  qed
  then show ?thesis by (simp add: sorted_wrt_map)
qed

text \<open>
  Claim C7, as amended. For valid dates \<open>start\<close> and \<open>end\<close> with \<open>end\<close> before
  9999-12-31, \<open>make_date_dim\<close> returns the rows of the calendar days from \<open>start\<close> to
  \<open>end\<close>: their ordinals are the consecutive integers from the ordinal of \<open>start\<close> to
  that of \<open>end\<close> (one row per day, no gap, no duplicate), so there are
  \<open>(end - start).days + 1\<close> rows when \<open>start \<le> end\<close> and none when \<open>end < start\<close>; the
  date keys are strictly ascending, and the weekend flag is 1 exactly on Saturday and
  Sunday.
\<close>

theorem make_date_dim_rows:
  assumes "valid_date start_dt" "valid_date end_dt" "end_dt \<noteq> date_max"
  shows "\<exists>ds. make_date_dim start_dt end_dt = Inr (map make_date_row ds)
           \<and> (\<forall>d\<in>set ds. valid_date d)
           \<and> map toordinal ds = [toordinal start_dt..toordinal end_dt]
           \<and> (date_le start_dt end_dt \<longrightarrow>
                 int (length ds) = toordinal end_dt - toordinal start_dt + 1)
           \<and> (\<not> date_le start_dt end_dt \<longrightarrow> ds = [])
           \<and> sorted_wrt (<) (map (\<lambda>d. date_key (make_date_row d)) ds)
           \<and> (\<forall>d\<in>set ds. is_weekend (make_date_row d) = 1 \<longleftrightarrow>
                 day_name (make_date_row d) = ''Saturday'' \<or> day_name (make_date_row d) = ''Sunday'')"
proof -
  obtain ds where ds: "make_date_dim_loop start_dt end_dt [] = Inr ([] @ map make_date_row ds)"
      "\<forall>d\<in>set ds. valid_date d" "map toordinal ds = [toordinal start_dt..toordinal end_dt]"
    using loop_general [OF assms(2,3,1)] by blast
  have len: "length ds = length [toordinal start_dt..toordinal end_dt]"
    using ds(3) by (metis length_map)
  have "date_le start_dt end_dt \<longrightarrow> int (length ds) = toordinal end_dt - toordinal start_dt + 1"
    using len date_le_toordinal [OF assms(1,2)] by simp
  moreover have "\<not> date_le start_dt end_dt \<longrightarrow> ds = []"
  proof
    assume "\<not> date_le start_dt end_dt"
    then have "toordinal end_dt - toordinal start_dt + 1 \<le> 0"
      using date_le_toordinal [OF assms(1,2)] by simp
    then have "length ds = 0" using len by simp
    then show "ds = []" by simp
  qed
  moreover have "sorted_wrt (<) (map (\<lambda>d. date_key (make_date_row d)) ds)"
    using sorted_keys ds(2,3) by blast
  moreover have "\<forall>d\<in>set ds. is_weekend (make_date_row d) = 1 \<longleftrightarrow>
                 day_name (make_date_row d) = ''Saturday'' \<or> day_name (make_date_row d) = ''Sunday''"
    using weekend_row by blast
  ultimately show ?thesis using ds by (intro exI [of _ ds]) (simp add: make_date_dim_def)
qed

lemma valid_2010: "valid_date date_2010_01_01" "valid_date date_2010_12_31"
  "date_2010_12_31 \<noteq> date_max"
  by (simp_all add: date_2010_01_01_def date_2010_12_31_def valid_date_def days_in_month_def
      date_max_def)

lemma toordinal_2010: "toordinal date_2010_01_01 = 733773" "toordinal date_2010_12_31 = 734137"
  by (simp_all add: date_2010_01_01_def date_2010_12_31_def toordinal_def days_before_year_def
      days_before_month_def is_leap_def)

theorem make_date_dim_rows_witness:
  "\<exists>rows. make_date_dim date_2010_01_01 date_2010_12_31 = Inr rows \<and> length rows = 365
      \<and> sorted_wrt (<) (map date_key rows)"
proof -
  obtain ds where ds: "make_date_dim date_2010_01_01 date_2010_12_31 = Inr (map make_date_row ds)"
      "date_le date_2010_01_01 date_2010_12_31 \<longrightarrow>
         int (length ds) = toordinal date_2010_12_31 - toordinal date_2010_01_01 + 1"
      "sorted_wrt (<) (map (\<lambda>d. date_key (make_date_row d)) ds)"
    using make_date_dim_rows [OF valid_2010] by blast
  have "date_le date_2010_01_01 date_2010_12_31"
    by (simp add: date_le_def date_2010_01_01_def date_2010_12_31_def)
  then have "length ds = 365" using ds(2) by (simp add: toordinal_2010)
  then show ?thesis using ds(1,3) by (simp add: comp_def)
qed

text \<open>
  With \<open>end\<close> = 9999-12-31 the loop appends the last row and then advances \<open>cur\<close> past
  the largest date: \<^verbatim>\<open>OverflowError\<close> instead of the one row the claim states.
\<close>

theorem make_date_dim_max_counterexample:
  "valid_date date_max \<and> date_le date_max date_max
     \<and> make_date_dim date_max date_max = Inl OverflowError"
  by (simp add: make_date_dim_def make_date_dim_loop.simps [of date_max] valid_date_max)
     (simp add: date_max_def date_le_def add_one_day_def days_in_month_def)

lemma date_for_row_range:
  assumes "1 \<le> yr" "yr \<le> 9999"
  shows "\<exists>dt k. deterministc_date_for_row H row_id yr = Inr k
           \<and> k = year dt * 10000 + month dt * 100 + day dt
           \<and> valid_date dt \<and> year dt = yr
           \<and> toordinal dt = toordinal \<lparr>year = yr, month = 1, day = 1\<rparr>
                               + int_of_hex (H (encode (str_int row_id))) mod 365
           \<and> yr * 10000 + 101 \<le> k \<and> k \<le> yr * 10000 + 1231
           \<and> (is_leap yr \<longrightarrow> k \<le> yr * 10000 + 1230)"
proof -
  define jan1 where "jan1 = \<lparr>year = yr, month = 1, day = 1\<rparr>"
  define dec31 where "dec31 = \<lparr>year = yr, month = 12, day = 31\<rparr>"
  define off where "off = int_of_hex (H (encode (str_int row_id))) mod 365"
  have off: "0 \<le> off" "off \<le> 364" by (simp_all add: off_def)
  have vj: "valid_date jan1" and vd: "valid_date dec31"
    using assms by (simp_all add: jan1_def dec31_def valid_date_def days_in_month_def)
  have oj: "toordinal jan1 = days_before_year yr + 1"
    by (simp add: jan1_def toordinal_def days_before_month_1)
  have od: "toordinal dec31 = days_before_year yr + (if is_leap yr then 366 else 365)"
    using days_before_month_12 [of yr] by (simp add: dec31_def toordinal_def)
  have "toordinal dec31 \<le> toordinal date_max"
    using date_le_max [OF vd] date_le_toordinal [OF vd valid_date_max] by simp
  then have "toordinal jan1 + int (nat off) \<le> toordinal date_max"
    using oj od off by (simp split: if_splits)
  then obtain dt where dt: "add_days (nat off) jan1 = Inr dt" "valid_date dt"
      "toordinal dt = toordinal jan1 + int (nat off)"
    using add_days_ok [OF vj] by blast
  have odt: "toordinal dt = toordinal jan1 + off" using dt(3) off by simp
  have y: "year dt = yr"
  proof (rule ccontr)
    assume "year dt \<noteq> yr"
    then consider "year dt < yr" | "yr < year dt" by linarith
    then show False
    proof cases
      case 1
      then have "\<not> date_le jan1 dt" by (simp add: date_le_def jan1_def)
      then show False using toordinal_strict_mono [OF dt(2) vj] odt off by simp
    next
      case 2
      then have "\<not> date_le dt dec31" by (simp add: date_le_def dec31_def)
      then show False using toordinal_strict_mono [OF vd dt(2)] odt oj od off
        by (simp split: if_splits)
    qed
  qed
  define k where "k = year dt * 10000 + month dt * 100 + day dt"
  have cint: "c_int_ok yr" "c_int_ok 1"
    using assms by (simp_all add: c_int_ok_def)
  have res: "deterministc_date_for_row H row_id yr = Inr k"
    using vj dt(1) strftime_key [OF dt(2)] cint
    by (simp add: deterministc_date_for_row_def datetime_def Let_def bind_err_def
        jan1_def [symmetric] off_def [symmetric] k_def)
  have md: "1 \<le> month dt" "month dt \<le> 12" "1 \<le> day dt" "day dt \<le> 31"
    using dt(2) days_in_month_le [of "year dt" "month dt"] by (auto simp: valid_date_def)
  have lo: "yr * 10000 + 101 \<le> k" and hi: "k \<le> yr * 10000 + 1231"
    using md y by (simp_all add: k_def)
  have leap: "k \<le> yr * 10000 + 1230" if "is_leap yr"
  proof -
    have "toordinal dt < toordinal dec31" using odt oj od off that by simp
    then have "\<not> date_le dec31 dt"
      using date_le_toordinal [OF vd dt(2)] by simp
    then have "month dt < 12 \<or> day dt < 31"
      using y md by (auto simp: date_le_def dec31_def)
    then show ?thesis using md y by (auto simp: k_def)
  qed
  show ?thesis
    using res dt(2) y odt lo hi leap
    by (intro exI [of _ dt] exI [of _ k]) (simp add: k_def jan1_def off_def)
qed

lemma date_for_row_bad_year:
  assumes "yr < 1 \<or> 9999 < yr" "\<bar>row_id\<bar> < 10 ^ 4300"
  shows "deterministc_date_for_row H row_id yr
           = Inl (if c_int_ok yr then ValueError else OverflowError)"
proof -
  have c1: "c_int_ok 1" by (simp add: c_int_ok_def)
  have nv: "\<not> valid_date \<lparr>year = yr, month = 1, day = 1\<rparr>"
    using assms(1) by (auto simp: valid_date_def)
  show ?thesis
    using c1 nv by (simp add: deterministc_date_for_row_def datetime_def bind_err_def Let_def)
qed

text \<open>
  Claim C2, as amended. For every integer \<open>row_id\<close> of at most 4300 decimal digits and
  every year from 1 to 9999, the date key is the YYYYMMDD number of the date \<open>d\<close> days
  after January 1 of the year, where \<open>d\<close> is the digest of the decimal string of
  \<open>row_id\<close>, read as a hexadecimal number, modulo 365. The date lies in the year,
  between January 1 and December 31, and in a leap year it is never December 31
  (day 366). The function has no other input, so equal arguments give equal keys.
\<close>

theorem deterministc_date_for_row_range:
  assumes "1 \<le> yr" "yr \<le> 9999" "\<bar>row_id\<bar> < 10 ^ 4300"
  shows "\<exists>dt k. deterministc_date_for_row H row_id yr = Inr k
           \<and> k = year dt * 10000 + month dt * 100 + day dt
           \<and> valid_date dt \<and> year dt = yr
           \<and> toordinal dt = toordinal \<lparr>year = yr, month = 1, day = 1\<rparr>
                               + int_of_hex (H (encode (str_int row_id))) mod 365
           \<and> yr * 10000 + 101 \<le> k \<and> k \<le> yr * 10000 + 1231
           \<and> (is_leap yr \<longrightarrow> k \<le> yr * 10000 + 1230)"
  using assms(1,2) by (rule date_for_row_range)

theorem deterministc_date_for_row_range_witness:
  "\<forall>H. \<exists>k. deterministc_date_for_row H 1 2010 = Inr k \<and> 20100101 \<le> k \<and> k \<le> 20101231"
proof
  fix H :: hexdigest
  have small: "\<bar>1::int\<bar> < 10 ^ 4300" by (simp del: power_numeral)
  show "\<exists>k. deterministc_date_for_row H 1 2010 = Inr k \<and> 20100101 \<le> k \<and> k \<le> 20101231"
    using deterministc_date_for_row_range [where yr = 2010 and row_id = 1 and H = H, OF _ _ small]
    by auto
qed

text \<open>
  For the year 0 the constructor \<^verbatim>\<open>datetime(year, 1, 1)\<close> raises \<^verbatim>\<open>ValueError\<close>, whatever
  the digest is: no date key is returned.
\<close>

theorem deterministc_date_for_row_year_counterexample:
  "\<forall>H. deterministc_date_for_row H 1 0 = Inl ValueError"
proof -
  have c: "c_int_ok 0" "c_int_ok 1" by (simp_all add: c_int_ok_def)
  have nv: "\<not> valid_date \<lparr>year = 0, month = 1, day = 1\<rparr>" by (simp add: valid_date_def)
  show ?thesis
    using c nv by (simp add: deterministc_date_for_row_def datetime_def bind_err_def Let_def)
qed

section \<open>Deduplication and surrogate keys\<close>

lemma set_drop_duplicates_from: "set (drop_duplicates_from seen xs) = set xs - set seen"
  by (induction xs arbitrary: seen) auto

lemma distinct_drop_duplicates_from: "distinct (drop_duplicates_from seen xs)"
  by (induction xs arbitrary: seen) (auto simp: set_drop_duplicates_from)

lemma set_drop_duplicates [simp]: "set (drop_duplicates xs) = set xs"
  by (simp add: drop_duplicates_def set_drop_duplicates_from)

lemma distinct_drop_duplicates [simp]: "distinct (drop_duplicates xs)"
  by (simp add: drop_duplicates_def distinct_drop_duplicates_from)

lemma length_drop_duplicates: "length (drop_duplicates xs) = card (set xs)"
  using distinct_card [OF distinct_drop_duplicates, of xs] by simp

lemma drop_duplicates_distinct: "distinct xs \<Longrightarrow> drop_duplicates_from seen xs = filter (\<lambda>x. x \<notin> set seen) xs"
  by (induction xs arbitrary: seen) (auto intro: filter_cong)

lemma drop_duplicates_id: "distinct xs \<Longrightarrow> drop_duplicates xs = xs"
  by (simp add: drop_duplicates_def drop_duplicates_distinct)

lemma first_index_Cons:
  "first_index (x # xs) y = (if y = x then 0 else Suc (first_index xs y))"
  by (auto simp: first_index_def)

lemma first_occurrence_order_from:
  "sorted_wrt (\<lambda>a b. first_index xs a < first_index xs b) (drop_duplicates_from seen xs)"
proof (induction xs arbitrary: seen)
  case Nil
  then show ?case by simp
next
  case (Cons x xs)
  have rel: "sorted_wrt (\<lambda>a b. first_index (x # xs) a < first_index (x # xs) b)
               (drop_duplicates_from s xs)" if "x \<in> set s" for s
  proof (rule sorted_wrt_mono_rel [OF _ Cons.IH [of s]])
    fix a b
    assume "a \<in> set (drop_duplicates_from s xs)" "b \<in> set (drop_duplicates_from s xs)"
      "first_index xs a < first_index xs b"
    then have "a \<noteq> x" "b \<noteq> x" using that by (auto simp: set_drop_duplicates_from)
    then show "first_index (x # xs) a < first_index (x # xs) b"
      using \<open>first_index xs a < first_index xs b\<close> by (simp add: first_index_Cons)
  qed
  show ?case
  proof (cases "x \<in> set seen")
    case True
    then show ?thesis using rel [of seen] by simp
  next
    case False
    have "\<forall>y\<in>set (drop_duplicates_from (x # seen) xs). first_index (x # xs) x < first_index (x # xs) y"
      by (auto simp: set_drop_duplicates_from first_index_Cons)
    then show ?thesis using False rel [of "x # seen"] by simp
  qed
qed

lemma first_occurrence_order:
  "sorted_wrt (\<lambda>a b. first_index xs a < first_index xs b) (drop_duplicates xs)"
  by (simp add: drop_duplicates_def first_occurrence_order_from)

lemma map_fst_assign_keys [simp]: "map fst (assign_keys xs) = xs"
  by (simp add: assign_keys_def del: upt_Suc)

lemma map_snd_assign_keys [simp]: "map snd (assign_keys xs) = [1..<Suc (length xs)]"
  by (simp add: assign_keys_def del: upt_Suc)

lemma length_assign_keys [simp]: "length (assign_keys xs) = length xs"
  by (simp add: assign_keys_def del: upt_Suc)

lemma insured_dim_properties:
  fixes insurance :: "raw_record list"
  defines "nks \<equiv> map profile_of (transform insurance)"
  defines "idim \<equiv> build_insured_dim (transform insurance)"
  shows "map snd idim = [1..<Suc (length idim)]"
    and "distinct (map fst idim)"
    and "set (map fst idim) = set nks"
    and "length idim = card (set nks)"
    and "sorted_wrt (\<lambda>a b. first_index nks a < first_index nks b) (map fst idim)"
    and "distinct (map snd idim)"
    and "set (map snd idim) = {1..length idim}"
  unfolding idim_def nks_def build_insured_dim_def
  by (auto simp: length_drop_duplicates first_occurrence_order simp del: upt_Suc)

lemma build_fact_np:
  "build_fact H insured idim rg = Inl (NameError ''np'')"
  by (simp add: build_fact_def lookup_name_def module_names_def builtin_names_def bind_err_def)

section \<open>The left join with the reference dataset\<close>

lemma merge_providers_joined:
  assumes "providers \<noteq> []"
  shows "merge_providers labels providers = Inr (concat (map (joined_rows providers) labels))"
proof -
  have "map (\<lambda>(l, m). \<lparr>rg_region = l, preferred_provider = map_option p_preferred_provider m,
                          network_tier = map_option p_network_tier m\<rparr>)
          (case filter (\<lambda>p. p_region p = l) providers of
             [] \<Rightarrow> [(l, None)] | ms \<Rightarrow> map (\<lambda>r. (l, Some r)) ms)
        = joined_rows providers l" for l
    by (simp add: joined_rows_def split: list.splits)
  then show ?thesis
    using assms by (simp add: merge_providers_def merge_left_def map_concat comp_def)
qed

lemma joined_rows_region: "g \<in> set (joined_rows providers l) \<Longrightarrow> rg_region g = l"
  by (auto simp: joined_rows_def split: list.splits)

lemma joined_rows_nonempty: "joined_rows providers l \<noteq> []"
  by (simp add: joined_rows_def split: list.splits)

lemma joined_rows_unmatched:
  "\<not> (\<exists>p\<in>set providers. p_region p = l) \<Longrightarrow>
     joined_rows providers l = [\<lparr>rg_region = l, preferred_provider = None, network_tier = None\<rparr>]"
  by (simp add: joined_rows_def filter_empty_conv split: list.splits)

lemma joined_rows_matched:
  assumes "\<exists>p\<in>set providers. p_region p = l"
  shows "set (joined_rows providers l) =
           (\<lambda>p. \<lparr>rg_region = l, preferred_provider = Some (p_preferred_provider p),
                   network_tier = Some (p_network_tier p)\<rparr>) ` {p \<in> set providers. p_region p = l}"
proof -
  have "filter (\<lambda>p. p_region p = l) providers \<noteq> []"
    using assms by (simp add: filter_empty_conv)
  then have "joined_rows providers l =
      map (\<lambda>p. \<lparr>rg_region = l, preferred_provider = Some (p_preferred_provider p),
                  network_tier = Some (p_network_tier p)\<rparr>) (filter (\<lambda>p. p_region p = l) providers)"
    by (simp add: joined_rows_def split: list.splits)
  then show ?thesis by auto
qed

lemma filter_concat_group:
  assumes "distinct ls" "l \<in> set ls" "\<And>l' g. g \<in> set (f l') \<Longrightarrow> key g = l'"
  shows "filter (\<lambda>g. key g = l) (concat (map f ls)) = f l"
  using assms(1,2)
proof (induction ls)
  case Nil
  then show ?case by simp
next
  case (Cons a ls)
  have none: "filter (\<lambda>g. key g = l) (f l') = []" if "l' \<noteq> l" for l'
    using assms(3) that by (auto simp: filter_empty_conv)
  have all: "filter (\<lambda>g. key g = l) (f l) = f l"
    using assms(3) by (auto simp: filter_id_conv)
  have rest: "filter (\<lambda>g. key g = l) (concat (map f ls)) = []" if "l \<notin> set ls"
    using that assms(3) by (auto simp: filter_empty_conv)
  show ?case
  proof (cases "a = l")
    case True
    then show ?thesis using Cons.prems all rest by simp
  next
    case False
    then show ?thesis using Cons none [of a] by simp
  qed
qed

lemma set_labels:
  "set (drop_duplicates (map region (transform insurance))) = normalized_labels insurance"
  by (auto simp: transform_def transform_row_def normalized_labels_def)

lemma is_region_dimension_intro:
  assumes xs: "set xs = set (concat (map (joined_rows providers) labels))"
    and labels: "set labels = normalized_labels insurance"
    and sorted: "sorted (map rg_region xs)"
    and single: "\<And>l. l \<in> set labels \<Longrightarrow> \<not> (\<exists>p\<in>set providers. p_region p = l) \<Longrightarrow>
                   length (filter (\<lambda>g. rg_region g = l) xs) = 1"
  shows "is_region_dimension insurance providers (assign_keys xs)"
proof -
  have fst_set: "fst ` set (assign_keys xs) = set xs"
    using map_fst_assign_keys [of xs] by (metis set_map)
  have mem: "g \<in> set xs \<longleftrightarrow> (\<exists>l\<in>set labels. g \<in> set (joined_rows providers l))" for g
    by (auto simp: xs)
  have c1: "map snd (assign_keys xs) = [1..<Suc (length (assign_keys xs))]"
    by (simp del: upt_Suc)
  have c2: "sorted (map rg_region (map fst (assign_keys xs)))"
    using sorted by simp
  have "rg_region ` set xs = set labels"
  proof (intro set_eqI iffI)
    fix l assume "l \<in> rg_region ` set xs"
    then obtain g where g: "g \<in> set xs" "l = rg_region g" by blast
    then obtain l' where l': "l' \<in> set labels" "g \<in> set (joined_rows providers l')"
      using mem by blast
    then show "l \<in> set labels" using joined_rows_region [OF l'(2)] g(2) by simp
  next
    fix l assume l: "l \<in> set labels"
    obtain g where g: "g \<in> set (joined_rows providers l)"
      using joined_rows_nonempty [of providers l] by (cases "joined_rows providers l") auto
    then have "g \<in> set xs" using mem l by blast
    moreover have "rg_region g = l" using joined_rows_region [OF g] .
    ultimately show "l \<in> rg_region ` set xs" by blast
  qed
  then have c3: "rg_region ` fst ` set (assign_keys xs) = normalized_labels insurance"
    using labels fst_set by simp
  have c4: "\<forall>g\<in>fst ` set (assign_keys xs).
        if \<exists>p\<in>set providers. p_region p = rg_region g
        then \<exists>p\<in>set providers. p_region p = rg_region g
               \<and> preferred_provider g = Some (p_preferred_provider p)
               \<and> network_tier g = Some (p_network_tier p)
        else preferred_provider g = None \<and> network_tier g = None"
  proof
    fix g assume "g \<in> fst ` set (assign_keys xs)"
    then have "g \<in> set xs" using fst_set by simp
    then obtain l where l: "l \<in> set labels" "g \<in> set (joined_rows providers l)"
      using mem by blast
    have r: "rg_region g = l" using joined_rows_region [OF l(2)] .
    show "if \<exists>p\<in>set providers. p_region p = rg_region g
        then \<exists>p\<in>set providers. p_region p = rg_region g
               \<and> preferred_provider g = Some (p_preferred_provider p)
               \<and> network_tier g = Some (p_network_tier p)
        else preferred_provider g = None \<and> network_tier g = None"
    proof (cases "\<exists>p\<in>set providers. p_region p = l")
      case True
      obtain p where p: "p \<in> set providers" "p_region p = l"
        "g = \<lparr>rg_region = l, preferred_provider = Some (p_preferred_provider p),
               network_tier = Some (p_network_tier p)\<rparr>"
        using l(2) unfolding joined_rows_matched [OF True] by blast
      have "p_region p = rg_region g \<and> preferred_provider g = Some (p_preferred_provider p)
               \<and> network_tier g = Some (p_network_tier p)"
        using p(2) r by (simp add: p(3))
      then show ?thesis using True r p(1) by auto
    next
      case False
      have "g = \<lparr>rg_region = l, preferred_provider = None, network_tier = None\<rparr>"
        using l(2) unfolding joined_rows_unmatched [OF False] by simp
      then have "preferred_provider g = None \<and> network_tier g = None" by simp
      then show ?thesis using False r by simp
    qed
  qed
  have c5: "\<forall>p\<in>set providers. p_region p \<in> normalized_labels insurance \<longrightarrow>
        \<lparr>rg_region = p_region p, preferred_provider = Some (p_preferred_provider p),
         network_tier = Some (p_network_tier p)\<rparr> \<in> fst ` set (assign_keys xs)"
  proof (intro ballI impI)
    fix p assume p: "p \<in> set providers" "p_region p \<in> normalized_labels insurance"
    then have ex: "\<exists>q\<in>set providers. p_region q = p_region p" by blast
    have "\<lparr>rg_region = p_region p, preferred_provider = Some (p_preferred_provider p),
         network_tier = Some (p_network_tier p)\<rparr> \<in> set (joined_rows providers (p_region p))"
      unfolding joined_rows_matched [OF ex] using p(1) by blast
    moreover have "p_region p \<in> set labels" using p(2) labels by simp
    ultimately have "\<lparr>rg_region = p_region p, preferred_provider = Some (p_preferred_provider p),
         network_tier = Some (p_network_tier p)\<rparr> \<in> set xs"
      using mem by blast
    then show "\<lparr>rg_region = p_region p, preferred_provider = Some (p_preferred_provider p),
         network_tier = Some (p_network_tier p)\<rparr> \<in> fst ` set (assign_keys xs)"
      using fst_set by simp
  qed
  have c6: "\<forall>l\<in>normalized_labels insurance. \<not> (\<exists>p\<in>set providers. p_region p = l) \<longrightarrow>
        length (filter (\<lambda>g. rg_region g = l) (map fst (assign_keys xs))) = 1"
    using single labels by simp
  show ?thesis
    unfolding is_region_dimension_def by (intro conjI c1 c2 c3 c4 c5 c6)
qed

lemma build_regions_ok:
  assumes "providers \<noteq> []"
  shows "\<exists>rg. build_regions (transform insurance) providers = Inr rg
            \<and> is_region_dimension insurance providers rg"
proof -
  define labels where "labels = drop_duplicates (map region (transform insurance))"
  define merged where "merged = concat (map (joined_rows providers) labels)"
  have res: "build_regions (transform insurance) providers
               = Inr (assign_keys (sort_key rg_region merged))"
    using merge_providers_joined [OF assms]
    by (simp add: build_regions_def bind_err_def labels_def merged_def)
  have single: "length (filter (\<lambda>g. rg_region g = l) (sort_key rg_region merged)) = 1"
    if "l \<in> set labels" "\<not> (\<exists>p\<in>set providers. p_region p = l)" for l
  proof -
    have "filter (\<lambda>g. rg_region g = l) merged = joined_rows providers l"
      unfolding merged_def
      by (rule filter_concat_group) (use that joined_rows_region in \<open>auto simp: labels_def\<close>)
    then have "length (filter (\<lambda>g. rg_region g = l) merged) = 1"
      using joined_rows_unmatched [OF that(2)] by simp
    then show ?thesis by (simp add: filter_sort)
  qed
  have "is_region_dimension insurance providers (assign_keys (sort_key rg_region merged))"
  proof (rule is_region_dimension_intro [where labels = labels])
    show "set labels = normalized_labels insurance"
      unfolding labels_def by (rule set_labels)
  qed (use single in \<open>simp_all add: merged_def\<close>)
  then show ?thesis using res by simp
qed

lemma build_regions_mysql_ok:
  assumes "providers \<noteq> []"
  shows "\<exists>rg. build_regions_mysql (transform insurance) providers = Inr rg
            \<and> is_region_dimension insurance providers rg"
proof -
  define labels where "labels = drop_duplicates (map region (transform insurance))"
  define merged where "merged = concat (map (joined_rows providers) labels)"
  have res: "build_regions_mysql (transform insurance) providers
               = Inr (assign_keys (sort_key rg_region (drop_duplicates merged)))"
    using merge_providers_joined [OF assms]
    by (simp add: build_regions_mysql_def bind_err_def labels_def merged_def)
  have single: "length (filter (\<lambda>g. rg_region g = l) (sort_key rg_region (drop_duplicates merged))) = 1"
    if "l \<in> set labels" "\<not> (\<exists>p\<in>set providers. p_region p = l)" for l
  proof -
    have "filter (\<lambda>g. rg_region g = l) merged = joined_rows providers l"
      unfolding merged_def
      by (rule filter_concat_group) (use that joined_rows_region in \<open>auto simp: labels_def\<close>)
    then have "set (filter (\<lambda>g. rg_region g = l) merged)
                 = {\<lparr>rg_region = l, preferred_provider = None, network_tier = None\<rparr>}"
      using joined_rows_unmatched [OF that(2)] by simp
    then have "set (filter (\<lambda>g. rg_region g = l) (drop_duplicates merged))
                 = {\<lparr>rg_region = l, preferred_provider = None, network_tier = None\<rparr>}"
      by simp
    moreover have "distinct (filter (\<lambda>g. rg_region g = l) (drop_duplicates merged))"
      by simp
    ultimately have "length (filter (\<lambda>g. rg_region g = l) (drop_duplicates merged)) = 1"
      using distinct_card [of "filter (\<lambda>g. rg_region g = l) (drop_duplicates merged)"] by simp
    then show ?thesis by (simp add: filter_sort)
  qed
  have "is_region_dimension insurance providers
          (assign_keys (sort_key rg_region (drop_duplicates merged)))"
  proof (rule is_region_dimension_intro [where labels = labels])
    show "set labels = normalized_labels insurance"
      unfolding labels_def by (rule set_labels)
  qed (use single in \<open>simp_all add: merged_def\<close>)
  then show ?thesis using res by simp
qed

lemma build_regions_empty:
  "build_regions insured [] = Inl (KeyError ''region'')"
  "build_regions_mysql insured [] = Inl (KeyError ''region'')"
  by (simp_all add: build_regions_def build_regions_mysql_def merge_providers_def bind_err_def)

section \<open>The joins of the fact step\<close>

lemma filter_find_unique:
  assumes "distinct (map kr right)"
  shows "filter (\<lambda>r. kr r = k) right
           = (case List.find (\<lambda>r. kr r = k) right of None \<Rightarrow> [] | Some r \<Rightarrow> [r])"
  using assms
proof (induction right)
  case Nil
  then show ?case by simp
next
  case (Cons a right)
  show ?case
  proof (cases "kr a = k")
    case True
    then have "\<forall>r\<in>set right. kr r \<noteq> k" using Cons.prems by (auto simp: image_iff)
    then have "filter (\<lambda>r. kr r = k) right = []" by (simp add: filter_empty_conv)
    then show ?thesis using True by simp
  next
    case False
    then show ?thesis using Cons by simp
  qed
qed

lemma merge_left_unique:
  assumes "distinct (map kr right)"
  shows "merge_left kl kr left right = map (\<lambda>l. (l, List.find (\<lambda>r. kr r = kl l) right)) left"
proof -
  have "(case filter (\<lambda>r. kr r = kl l) right of [] \<Rightarrow> [(l, None)] | ms \<Rightarrow> map (\<lambda>r. (l, Some r)) ms)
          = [(l, List.find (\<lambda>r. kr r = kl l) right)]" for l
    unfolding filter_find_unique [OF assms] by (simp split: option.splits)
  then show ?thesis by (simp add: merge_left_def)
qed

lemma enrich_unique:
  assumes "distinct (map fst idim)" "distinct (map (\<lambda>x. rg_region (fst x)) rg)"
  shows "enrich insured idim rg =
           map (\<lambda>r. \<lparr>source_row = r,
                      insured_key = map_option snd (List.find (\<lambda>d. fst d = profile_of r) idim),
                      region_key = map_option snd (List.find (\<lambda>x. rg_region (fst x) = region r) rg)\<rparr>)
               insured"
proof -
  have eq: "(\<lambda>(g, k). rg_region g) = (\<lambda>x. rg_region (fst x))" by auto
  have d2: "distinct (map (\<lambda>(g, k). rg_region g) rg)" using assms(2) by (simp add: eq)
  show ?thesis
    unfolding enrich_def Let_def merge_left_unique [OF assms(1)] merge_left_unique [OF d2]
    by (simp add: comp_def eq)
qed

lemma find_in_distinct:
  assumes "k \<in> f ` set xs"
  shows "\<exists>x. List.find (\<lambda>x. f x = k) xs = Some x \<and> x \<in> set xs \<and> f x = k"
proof (cases "List.find (\<lambda>x. f x = k) xs")
  case None
  then show ?thesis using assms by (auto simp: find_None_iff)
next
  case (Some x)
  then show ?thesis by (auto simp: find_Some_iff)
qed

lemma map_err_ok:
  assumes "\<forall>x\<in>set xs. \<exists>y. f x = Inr y"
  shows "\<exists>ys. map_err f xs = Inr ys \<and> length ys = length xs
            \<and> (\<forall>i<length xs. f (xs ! i) = Inr (ys ! i))"
  using assms
proof (induction xs)
  case Nil
  then show ?case by simp
next
  case (Cons x xs)
  then obtain y where y: "f x = Inr y" by auto
  obtain ys where ys: "map_err f xs = Inr ys" "length ys = length xs"
      "\<forall>i<length xs. f (xs ! i) = Inr (ys ! i)"
    using Cons by auto
  have "\<forall>i<length (x # xs). f ((x # xs) ! i) = Inr ((y # ys) ! i)"
    using y ys(3) by (auto simp: nth_Cons split: nat.splits)
  then show ?case using y ys(1,2) by (auto simp: bind_err_def)
qed

lemma joined_rows_single:
  assumes "distinct (map p_region providers)"
  shows "length (joined_rows providers l) = 1"
  unfolding joined_rows_def filter_find_unique [OF assms]
  by (simp split: option.splits)

lemma map_region_merged:
  assumes "distinct (map p_region providers)"
  shows "map rg_region (concat (map (joined_rows providers) labels)) = labels"
proof (induction labels)
  case Nil
  then show ?case by simp
next
  case (Cons l labels)
  obtain g where g: "joined_rows providers l = [g]"
    using joined_rows_single [OF assms, of l]
    by (cases "joined_rows providers l") auto
  then have "rg_region g = l" using joined_rows_region [of g providers l] by simp
  then show ?case using Cons g by simp
qed

lemma distinct_map_sort_key:
  "distinct (map f xs) \<Longrightarrow> distinct (map f (sort_key g xs))"
  by (simp add: distinct_map)

lemma regions_distinct:
  assumes "providers \<noteq> []" "distinct (map p_region providers)"
  shows "\<exists>rg. build_regions_mysql insured providers = Inr rg
            \<and> distinct (map (\<lambda>x. rg_region (fst x)) rg)"
    and "\<exists>rg. build_regions insured providers = Inr rg
            \<and> distinct (map (\<lambda>x. rg_region (fst x)) rg)"
proof -
  define labels where "labels = drop_duplicates (map region insured)"
  define merged where "merged = concat (map (joined_rows providers) labels)"
  have m: "map rg_region merged = labels"
    unfolding merged_def by (rule map_region_merged [OF assms(2)])
  have dl: "distinct labels" by (simp add: labels_def)
  then have dm: "distinct (map rg_region merged)" using m by simp
  then have "distinct merged" by (simp add: distinct_map)
  then have dd: "drop_duplicates merged = merged" by (rule drop_duplicates_id)
  have eq: "map (\<lambda>x. rg_region (fst x)) (assign_keys ys) = map rg_region ys" for ys
  proof -
    have "map rg_region ys = map rg_region (map fst (assign_keys ys))" by simp
    also have "\<dots> = map (\<lambda>x. rg_region (fst x)) (assign_keys ys)"
      by (simp only: map_map comp_def)
    finally show ?thesis by simp
  qed
  have mp: "merge_providers labels providers = Inr merged"
    using merge_providers_joined [OF assms(1), of labels] by (simp add: merged_def)
  have "build_regions_mysql insured providers
          = Inr (assign_keys (sort_key rg_region (drop_duplicates merged)))"
    unfolding build_regions_mysql_def labels_def [symmetric] mp by (simp add: bind_err_def)
  then have "build_regions_mysql insured providers
          = Inr (assign_keys (sort_key rg_region merged))"
    by (simp only: dd)
  then show "\<exists>rg. build_regions_mysql insured providers = Inr rg
            \<and> distinct (map (\<lambda>x. rg_region (fst x)) rg)"
    using distinct_map_sort_key [OF dm, of rg_region] by (simp only: eq sum.inject simp_thms ex_simps)
  have "build_regions insured providers
          = Inr (assign_keys (sort_key rg_region merged))"
    unfolding build_regions_def labels_def [symmetric] mp by (simp add: bind_err_def)
  then show "\<exists>rg. build_regions insured providers = Inr rg
            \<and> distinct (map (\<lambda>x. rg_region (fst x)) rg)"
    using distinct_map_sort_key [OF dm, of rg_region] by (simp only: eq sum.inject simp_thms ex_simps)
qed

lemma toordinal_inj:
  assumes "valid_date a" "valid_date b" "toordinal a = toordinal b"
  shows "a = b"
proof -
  have "date_le a b" "date_le b a"
    using assms date_le_toordinal by simp_all
  then have "year a = year b \<and> month a = month b \<and> day a = day b"
    unfolding date_le_def by arith
  then show ?thesis by simp
qed

section \<open>Date keys of the facts\<close>

lemma date_dim_2010:
  "\<exists>ds. make_date_dim date_2010_01_01 date_2010_12_31 = Inr (map make_date_row ds)
        \<and> (\<forall>d\<in>set ds. valid_date d)
        \<and> toordinal ` set ds = {toordinal date_2010_01_01..toordinal date_2010_12_31}"
proof -
  obtain ds where ds: "make_date_dim_loop date_2010_01_01 date_2010_12_31 []
                         = Inr ([] @ map make_date_row ds)"
      "\<forall>d\<in>set ds. valid_date d"
      "map toordinal ds = [toordinal date_2010_01_01..toordinal date_2010_12_31]"
    using loop_general [OF valid_2010(2) valid_2010(3) valid_2010(1), of "[]"] by blast
  have "set (map toordinal ds) = set [toordinal date_2010_01_01..toordinal date_2010_12_31]"
    by (simp only: ds(3))
  then have "toordinal ` set ds = {toordinal date_2010_01_01..toordinal date_2010_12_31}"
    by (simp only: set_map set_upto)
  then show ?thesis using ds(1,2) by (auto simp: make_date_dim_def)
qed

lemma date_key_in_dim:
  assumes "make_date_dim date_2010_01_01 date_2010_12_31 = Inr rows"
    and "deterministc_date_for_row H i 2010 = Inr k"
  shows "k \<in> date_key ` set rows"
proof -
  obtain ds where ds: "rows = map make_date_row ds" "\<forall>d\<in>set ds. valid_date d"
      "toordinal ` set ds = {toordinal date_2010_01_01..toordinal date_2010_12_31}"
    using date_dim_2010 assms(1) by auto
  obtain dt k' where dt: "deterministc_date_for_row H i 2010 = Inr k'"
      "k' = year dt * 10000 + month dt * 100 + day dt" "valid_date dt"
      "toordinal dt = toordinal \<lparr>year = 2010, month = 1, day = 1\<rparr>
                        + int_of_hex (H (encode (str_int i))) mod 365"
    using date_for_row_range [of 2010 H i] by auto
  have k: "k = k'" using assms(2) dt(1) by simp
  define off where "off = int_of_hex (H (encode (str_int i))) mod 365"
  have off: "0 \<le> off" "off < 365" by (simp_all add: off_def)
  have "toordinal dt = toordinal date_2010_01_01 + off"
    using dt(4) by (simp add: off_def date_2010_01_01_def)
  then have "toordinal dt \<in> {toordinal date_2010_01_01..toordinal date_2010_12_31}"
    using off by (simp add: toordinal_2010)
  then have "toordinal dt \<in> toordinal ` set ds" using ds(3) by simp
  then obtain d where d: "d \<in> set ds" "toordinal d = toordinal dt" by auto
  then have "d = dt" using toordinal_inj ds(2) dt(3) by blast
  then have "make_date_row dt \<in> set rows" using d(1) ds(1) by simp
  moreover have "date_key (make_date_row dt) = k"
    using strftime_key [OF dt(3)] dt(2) k by (simp add: make_date_row_def)
  ultimately show ?thesis by force
qed

lemma date_keys_2010:
  "\<exists>ys. map_err (\<lambda>i. deterministc_date_for_row H (int i) 2010) ids = Inr ys
        \<and> length ys = length ids
        \<and> (\<forall>i<length ids. deterministc_date_for_row H (int (ids ! i)) 2010 = Inr (ys ! i))"
proof (rule map_err_ok)
  show "\<forall>x\<in>set ids. \<exists>y. deterministc_date_for_row H (int x) 2010 = Inr y"
  proof
    fix x
    show "\<exists>y. deterministc_date_for_row H (int x) 2010 = Inr y"
      using date_for_row_range [of 2010 H "int x"] by auto
  qed
qed

lemma fact_rows_mysql_lemma:
  assumes "providers \<noteq> []" "distinct (map p_region providers)"
  shows "\<exists>m ids facts. main_mysql H insurance providers = Inr m \<and> fact m = (ids, facts)
     \<and> length facts = length insurance
     \<and> ids = [1..<Suc (length insurance)]
     \<and> (\<forall>i<length insurance.
           f_charges (facts ! i) = charges (insurance ! i)
         \<and> deterministc_date_for_row H (int (Suc i)) 2010 = Inr (f_date_key (facts ! i))
         \<and> f_date_key (facts ! i) \<in> date_key ` set (dim_date m)
         \<and> (\<exists>k. f_insured_key (facts ! i) = Some k
                \<and> (profile_of (transform_row (insurance ! i)), k) \<in> set (insured_dim m))
         \<and> (\<exists>g k. f_region_key (facts ! i) = Some k \<and> (g, k) \<in> set (regions m)
                \<and> rg_region g = str_lower (str_strip (region (insurance ! i)))))"
proof -
  define insured where "insured = transform insurance"
  define idim where "idim = build_insured_dim insured"
  define n where "n = length insurance"
  have len_ins: "length insured = n" by (simp add: insured_def transform_def n_def)
  have nth_ins: "insured ! i = transform_row (insurance ! i)" if "i < n" for i
    using that by (simp add: insured_def transform_def n_def)
  obtain rg where rg: "build_regions_mysql insured providers = Inr rg"
      "distinct (map (\<lambda>x. rg_region (fst x)) rg)"
    using regions_distinct(1) [OF assms] by blast
  have rgdim: "is_region_dimension insurance providers rg"
    using build_regions_mysql_ok [OF assms(1), of insurance] rg(1) by (auto simp: insured_def)
  have didim: "distinct (map fst idim)" and sidim: "set (map fst idim) = set (map profile_of insured)"
    unfolding idim_def insured_def
    using insured_dim_properties(2,3) [of insurance] by simp_all
  obtain ds where dd: "make_date_dim date_2010_01_01 date_2010_12_31 = Inr (map make_date_row ds)"
    using date_dim_2010 by blast
  define e where "e = enrich insured idim rg"
  have e: "e = map (\<lambda>r. \<lparr>source_row = r,
                      insured_key = map_option snd (List.find (\<lambda>d. fst d = profile_of r) idim),
                      region_key = map_option snd (List.find (\<lambda>x. rg_region (fst x) = region r) rg)\<rparr>)
               insured"
    unfolding e_def by (rule enrich_unique [OF didim rg(2)])
  have len_e: "length e = n" by (simp add: e len_ins)
  define ids where "ids = [1..<Suc (length e)]"
  have ids: "ids = [1..<Suc n]" by (simp only: ids_def len_e)
  have len_ids: "length ids = n" by (simp add: ids del: upt_Suc)
  have nth_ids: "ids ! i = Suc i" if "i < n" for i
    using that by (simp add: ids del: upt_Suc)
  obtain ys where ys: "map_err (\<lambda>i. deterministc_date_for_row H (int i) 2010) ids = Inr ys"
      "length ys = length ids"
      "\<forall>i<length ids. deterministc_date_for_row H (int (ids ! i)) 2010 = Inr (ys ! i)"
    using date_keys_2010 by blast
  define facts where "facts = map2 make_fact_row e ys"
  have len_f: "length facts = n" by (simp add: facts_def len_e ys(2) len_ids)
  have nth_f: "facts ! i = make_fact_row (e ! i) (ys ! i)" if "i < n" for i
    using that by (simp add: facts_def len_e ys(2) len_ids)
  have nth_e: "e ! i = \<lparr>source_row = transform_row (insurance ! i),
        insured_key = map_option snd (List.find (\<lambda>d. fst d = profile_of (transform_row (insurance ! i))) idim),
        region_key = map_option snd (List.find (\<lambda>x. rg_region (fst x) = region (transform_row (insurance ! i))) rg)\<rparr>"
    if "i < n" for i
    using that by (simp add: e len_ins nth_ins)
  define m where "m = \<lparr>dim_date = map make_date_row ds, insured_dim = idim, regions = rg,
                        fact = (ids, facts)\<rparr>"
  have bf: "build_fact_mysql H insured idim rg = Inr (ids, facts)"
    unfolding build_fact_mysql_def Let_def e_def [symmetric] ids_def [symmetric]
    by (simp add: ys(1) bind_err_def facts_def)
  have main: "main_mysql H insurance providers = Inr m"
    unfolding main_mysql_def Let_def insured_def [symmetric] idim_def [symmetric]
    by (simp add: rg(1) dd bf bind_err_def m_def)
  have row: "f_charges (facts ! i) = charges (insurance ! i)
         \<and> deterministc_date_for_row H (int (Suc i)) 2010 = Inr (f_date_key (facts ! i))
         \<and> f_date_key (facts ! i) \<in> date_key ` set (dim_date m)
         \<and> (\<exists>k. f_insured_key (facts ! i) = Some k
                \<and> (profile_of (transform_row (insurance ! i)), k) \<in> set (insured_dim m))
         \<and> (\<exists>g k. f_region_key (facts ! i) = Some k \<and> (g, k) \<in> set (regions m)
                \<and> rg_region g = str_lower (str_strip (region (insurance ! i))))"
    if i: "i < n" for i
  proof -
    define r where "r = transform_row (insurance ! i)"
    have fi: "facts ! i = make_fact_row (e ! i) (ys ! i)" using nth_f [OF i] .
    have c1: "f_charges (facts ! i) = charges (insurance ! i)"
      by (simp add: fi nth_e [OF i] make_fact_row_def transform_row_def)
    have dk: "deterministc_date_for_row H (int (Suc i)) 2010 = Inr (ys ! i)"
      using ys(3) i len_ids nth_ids [OF i] by auto
    have fdk: "f_date_key (facts ! i) = ys ! i" by (simp add: fi make_fact_row_def)
    have c3: "ys ! i \<in> date_key ` set (dim_date m)"
      using date_key_in_dim [OF dd dk] by (simp add: m_def)
    have "r \<in> set insured" using i nth_ins [OF i] len_ins by (metis nth_mem r_def)
    then have "profile_of r \<in> fst ` set idim" using sidim by auto
    then obtain x where x: "List.find (\<lambda>d. fst d = profile_of r) idim = Some x" "x \<in> set idim"
        "fst x = profile_of r"
      using find_in_distinct [of "profile_of r" fst idim] by blast
    have "f_insured_key (facts ! i) = Some (snd x)"
      by (simp add: fi nth_e [OF i] make_fact_row_def r_def [symmetric] x(1))
    moreover have "(profile_of r, snd x) \<in> set idim" using x(2,3) by (metis prod.collapse)
    ultimately have c4: "\<exists>k. f_insured_key (facts ! i) = Some k
                \<and> (profile_of (transform_row (insurance ! i)), k) \<in> set (insured_dim m)"
      by (auto simp: m_def r_def)
    have reg: "region r = str_lower (str_strip (region (insurance ! i)))"
      by (simp add: r_def transform_row_def)
    have "insurance ! i \<in> set insurance" using i by (simp add: n_def)
    then have "region r \<in> normalized_labels insurance"
      unfolding reg normalized_labels_def by blast
    then have "region r \<in> rg_region ` fst ` set rg"
      using rgdim by (simp add: is_region_dimension_def)
    then have "region r \<in> (\<lambda>x. rg_region (fst x)) ` set rg" by (simp add: image_image)
    then obtain y where y: "List.find (\<lambda>x. rg_region (fst x) = region r) rg = Some y" "y \<in> set rg"
        "rg_region (fst y) = region r"
      using find_in_distinct [of "region r" "\<lambda>x. rg_region (fst x)" rg] by blast
    have "f_region_key (facts ! i) = Some (snd y)"
      by (simp add: fi nth_e [OF i] make_fact_row_def r_def [symmetric] y(1))
    moreover have "(fst y, snd y) \<in> set rg" using y(2) by simp
    ultimately have c5: "\<exists>g k. f_region_key (facts ! i) = Some k \<and> (g, k) \<in> set (regions m)
                \<and> rg_region g = str_lower (str_strip (region (insurance ! i)))"
      using y(3) reg by (intro exI [of _ "fst y"] exI [of _ "snd y"]) (simp add: m_def)
    show ?thesis using c1 dk fdk c3 c4 c5 by simp
  qed
  have "fact m = (ids, facts)" by (simp add: m_def)
  then show ?thesis
    using main len_f ids row unfolding n_def by blast
qed

section \<open>The scenario\<close>

lemma scenario_insured_dim:
  "build_insured_dim (transform scenario) =
     [(\<lparr>pf_age = 25, pf_age_band = ''25-34'', pf_sex = ''F'', pf_smoker = ''no'',
        pf_bmi = Finite 22, pf_bmi_category = ''Normal'', pf_children = 0\<rparr>, 1),
      (\<lparr>pf_age = 70, pf_age_band = ''65+'', pf_sex = ''M'', pf_smoker = ''yes'',
        pf_bmi = Finite 31, pf_bmi_category = ''Obese'', pf_children = 2\<rparr>, 2)]"
  by code_simp

lemma scenario_regions:
  "build_regions (transform scenario) example_providers =
     Inr [(\<lparr>rg_region = ''east'', preferred_provider = Some ''Provider E'',
            network_tier = Some ''Gold''\<rparr>, 1),
          (\<lparr>rg_region = ''west'', preferred_provider = Some ''Provider W'',
            network_tier = Some ''Silver''\<rparr>, 2)]"
  by code_simp

lemma scenario_regions_unnormalized:
  "build_regions (transform scenario) unnormalized_providers =
     Inr [(\<lparr>rg_region = ''east'', preferred_provider = None, network_tier = None\<rparr>, 1),
          (\<lparr>rg_region = ''west'', preferred_provider = None, network_tier = None\<rparr>, 2)]"
  by code_simp

lemma duplicated_regions:
  "build_regions_mysql (transform [hd scenario]) duplicated_providers =
     Inr [(\<lparr>rg_region = ''east'', preferred_provider = Some ''Provider E'',
            network_tier = Some ''Gold''\<rparr>, 1),
          (\<lparr>rg_region = ''east'', preferred_provider = Some ''Provider F'',
            network_tier = Some ''Silver''\<rparr>, 2)]"
  by code_simp

lemma duplicated_enrich:
  "length (enrich (transform [hd scenario]) (build_insured_dim (transform [hd scenario]))
     [(\<lparr>rg_region = ''east'', preferred_provider = Some ''Provider E'',
            network_tier = Some ''Gold''\<rparr>, 1),
          (\<lparr>rg_region = ''east'', preferred_provider = Some ''Provider F'',
            network_tier = Some ''Silver''\<rparr>, 2)]) = 2"
  by code_simp

section \<open>The model on concrete values\<close>

lemma str_int_examples:
  "str_int 1338 = ''1338''" "str_int (- 7) = ''-7''" "str_int 0 = ''0''"
  by code_simp+

lemma encode_example: "encode (str_int 17) = [49, 55]"
  by code_simp

lemma int_of_hex_example: "int_of_hex ''00ff1a'' = 65306"
  by code_simp

lemma date_row_2010_01_01:
  "make_date_row date_2010_01_01 =
     \<lparr>date_key = 20100101, full_date = ''2010-01-01'', day_of_week = 5, day_name = ''Friday'',
      month_of_year = 1, month_name = ''January'', calendar_quarter = 1, calendar_year = 2010,
      is_weekend = 0\<rparr>"
  by code_simp

lemma date_row_2010_12_31:
  "make_date_row date_2010_12_31 =
     \<lparr>date_key = 20101231, full_date = ''2010-12-31'', day_of_week = 5, day_name = ''Friday'',
      month_of_year = 12, month_name = ''December'', calendar_quarter = 4, calendar_year = 2010,
      is_weekend = 0\<rparr>"
  by code_simp

lemma leap_day_2012:
  "add_days 59 \<lparr>year = 2012, month = 1, day = 1\<rparr> = Inr \<lparr>year = 2012, month = 2, day = 29\<rparr>"
  "add_days 364 \<lparr>year = 2012, month = 1, day = 1\<rparr> = Inr \<lparr>year = 2012, month = 12, day = 30\<rparr>"
  by code_simp+

lemma str_strip_lower_examples:
  "str_lower (str_strip '' East '') = ''east''" "str_lower (str_strip ''WEST'') = ''west''"
  by code_simp+

section \<open>Properties of the dimension builders and of the fact step\<close>

lemma main_sqlite_outcome:
  "main_sqlite H insurance providers =
     (if providers = [] then Inl (KeyError ''region'') else Inl (NameError ''np''))"
proof (cases "providers = []")
  case True
  then show ?thesis
    by (simp add: main_sqlite_def Let_def build_regions_empty bind_err_def)
next
  case False
  obtain rg where rg: "build_regions (transform insurance) providers = Inr rg"
    using build_regions_ok [OF False] by blast
  obtain ds where dd: "make_date_dim date_2010_01_01 date_2010_12_31 = Inr (map make_date_row ds)"
    using date_dim_2010 by blast
  show ?thesis
    using False by (simp add: main_sqlite_def Let_def rg dd build_fact_np bind_err_def)
qed

text \<open>
  Claim C3. For every list of raw records, the insured dimension is the list of the
  natural-key tuples of the records without duplicates, in the order of their first
  occurrences, each with its surrogate key: the keys are 1..N in row order (exactly the
  set {1..N}, no repeats), no two rows share a tuple, every tuple of the records has a
  row, and N is the number of distinct tuples.
\<close>

theorem insured_dimension_dedup:
  fixes insurance :: "raw_record list"
  defines "nks \<equiv> map profile_of (transform insurance)"
  defines "idim \<equiv> build_insured_dim (transform insurance)"
  shows "map snd idim = [1..<Suc (length idim)]
       \<and> set (map snd idim) = {1..length idim} \<and> distinct (map snd idim)
       \<and> distinct (map fst idim)
       \<and> set (map fst idim) = set nks
       \<and> length idim = card (set nks)
       \<and> sorted_wrt (\<lambda>a b. first_index nks a < first_index nks b) (map fst idim)"
  unfolding nks_def idim_def
  by (intro conjI insured_dim_properties)

theorem insured_dimension_dedup_witness:
  "length (build_insured_dim (transform scenario)) = 2
     \<and> map snd (build_insured_dim (transform scenario)) = [1, 2]
     \<and> card (set (map profile_of (transform scenario))) = 2
     \<and> distinct (map fst (build_insured_dim (transform scenario)))"
  using insured_dimension_dedup [of scenario] by (simp add: scenario_insured_dim)

text \<open>
  With a non-empty reference dataset both pipelines build a region dimension that
  satisfies \<open>is_region_dimension\<close>: the distinct stripped and lower-cased source labels,
  left-joined with the reference entries of the same region, sorted by region, with
  surrogate keys 1..N in sorted order; a label without a reference match gives one row
  with null enrichment attributes.
\<close>

lemma region_dimension_left_join:
  assumes "providers \<noteq> []"
  shows "\<exists>rg rg'. build_regions (transform insurance) providers = Inr rg
           \<and> is_region_dimension insurance providers rg
           \<and> build_regions_mysql (transform insurance) providers = Inr rg'
           \<and> is_region_dimension insurance providers rg'"
  using build_regions_ok [OF assms, of insurance] build_regions_mysql_ok [OF assms, of insurance]
  by blast

lemma region_dimension_left_join_example:
  "\<exists>rg. build_regions (transform scenario) example_providers = Inr rg
       \<and> is_region_dimension scenario example_providers rg
       \<and> map (\<lambda>x. rg_region (fst x)) rg = [''east'', ''west''] \<and> map snd rg = [1, 2]"
proof -
  have "example_providers \<noteq> []" by (simp add: example_providers_def)
  then show ?thesis
    using region_dimension_left_join [of example_providers scenario]
    by (auto simp: scenario_regions)
qed

text \<open>
  Claim C4, on the code. The claim asks, for every reference dataset, for a dimension row
  with null enrichment attributes where a region has no reference match. With an empty
  reference dataset no region has a match, but the reference frame then has no
  \<^verbatim>\<open>region\<close> column and the join raises \<^verbatim>\<open>KeyError\<close>, in both pipelines: on the
  records of the scenario neither builds a region dimension, and neither \<^verbatim>\<open>main\<close>
  returns its tables.
\<close>

theorem region_dimension_empty_reference_error:
  "build_regions (transform scenario) [] = Inl (KeyError ''region'')
     \<and> build_regions_mysql (transform scenario) [] = Inl (KeyError ''region'')
     \<and> main_sqlite H scenario [] = Inl (KeyError ''region'')
     \<and> main_mysql H scenario [] = Inl (KeyError ''region'')"
  by (simp add: build_regions_empty main_sqlite_def main_mysql_def Let_def bind_err_def)

lemma enrichment_rows:
  assumes "build_regions (transform insurance) providers = Inr rg
             \<or> build_regions_mysql (transform insurance) providers = Inr rg"
  shows "\<forall>x\<in>set rg. rg_region (fst x) \<in> normalized_labels insurance
           \<and> (preferred_provider (fst x) \<noteq> None \<longleftrightarrow>
                (\<exists>p\<in>set providers. p_region p = rg_region (fst x)))
           \<and> (network_tier (fst x) \<noteq> None \<longleftrightarrow>
                (\<exists>p\<in>set providers. p_region p = rg_region (fst x)))"
proof -
  have ne: "providers \<noteq> []"
    using assms build_regions_empty by auto
  have "is_region_dimension insurance providers rg"
    using assms build_regions_ok [OF ne, of insurance] build_regions_mysql_ok [OF ne, of insurance]
    by auto
  then have lab: "rg_region ` fst ` set rg = normalized_labels insurance"
    and att: "\<forall>g\<in>fst ` set rg.
        if \<exists>p\<in>set providers. p_region p = rg_region g
        then \<exists>p\<in>set providers. p_region p = rg_region g
               \<and> preferred_provider g = Some (p_preferred_provider p)
               \<and> network_tier g = Some (p_network_tier p)
        else preferred_provider g = None \<and> network_tier g = None"
    by (simp_all add: is_region_dimension_def)
  show ?thesis
  proof
    fix x assume x: "x \<in> set rg"
    then have "fst x \<in> fst ` set rg" by simp
    then have "if \<exists>p\<in>set providers. p_region p = rg_region (fst x)
        then \<exists>p\<in>set providers. p_region p = rg_region (fst x)
               \<and> preferred_provider (fst x) = Some (p_preferred_provider p)
               \<and> network_tier (fst x) = Some (p_network_tier p)
        else preferred_provider (fst x) = None \<and> network_tier (fst x) = None"
      using att by blast
    moreover have "rg_region (fst x) \<in> normalized_labels insurance"
      using x lab by blast
    ultimately show "rg_region (fst x) \<in> normalized_labels insurance
           \<and> (preferred_provider (fst x) \<noteq> None \<longleftrightarrow>
                (\<exists>p\<in>set providers. p_region p = rg_region (fst x)))
           \<and> (network_tier (fst x) \<noteq> None \<longleftrightarrow>
                (\<exists>p\<in>set providers. p_region p = rg_region (fst x)))"
      by (auto split: if_splits)
  qed
qed

text \<open>
  Claim C10. In \<^verbatim>\<open>etl_pipeline.py\<close> the fact step raises \<^verbatim>\<open>NameError\<close> for \<^verbatim>\<open>np\<close> on
  every input, since \<^verbatim>\<open>np\<close> is neither bound in the module nor a builtin; so \<^verbatim>\<open>main\<close>
  never returns the four tables, that is, never reaches the load stage.
\<close>

theorem fact_step_name_error:
  "build_fact H insured idim rg = Inl (NameError ''np'')
     \<and> (\<forall>m. main_sqlite H insurance providers \<noteq> Inr m)
     \<and> ''np'' \<notin> set module_names \<and> ''np'' \<notin> set builtin_names"
  by (simp add: build_fact_np main_sqlite_outcome module_names_def builtin_names_def)

theorem fact_step_name_error_witness:
  "\<forall>H. build_fact H (transform scenario) (build_insured_dim (transform scenario)) []
           = Inl (NameError ''np'')
        \<and> (\<forall>m. main_sqlite H scenario example_providers \<noteq> Inr m)"
  using fact_step_name_error [of _ "transform scenario" "build_insured_dim (transform scenario)"
      "[]" scenario example_providers]
  by simp

text \<open>
  Claim C8, on the code. On the three records of the scenario \<^verbatim>\<open>etl_pipeline.py\<close> builds
  an insured dimension of 2 rows and finds the two regions \<^verbatim>\<open>east\<close> and \<^verbatim>\<open>west\<close>, but
  it produces no fact table: with any non-empty reference dataset the fact step raises
  \<^verbatim>\<open>NameError\<close> (and with an empty one the region join raises \<^verbatim>\<open>KeyError\<close>).
\<close>

theorem scenario_sqlite_no_fact_table:
  "length (build_insured_dim (transform scenario)) = 2
     \<and> normalized_labels scenario = {''east'', ''west''}
     \<and> main_sqlite H scenario providers =
         (if providers = [] then Inl (KeyError ''region'') else Inl (NameError ''np''))"
proof -
  have "normalized_labels scenario = {''east'', ''west''}"
    unfolding normalized_labels_def scenario_def by code_simp
  then show ?thesis
    by (simp add: scenario_insured_dim main_sqlite_outcome)
qed

text \<open>
  Claim C1, as amended. For every list of raw records and every non-empty reference
  dataset in which no two entries share a region, \<^verbatim>\<open>etl_pipeline_mysql.py\<close> produces
  exactly one fact row per raw record, in source order (row \<open>i\<close> carries the charges of
  record \<open>i\<close>); the row identifiers are 1..N, the date key of a row is the one assigned
  to its identifier, and every fact row's insured key, region key and date key is the
  key of a row of the corresponding dimension table: the insured row of the record's
  natural-key tuple, a region row of the record's normalized region, and a row of the
  date dimension.
\<close>

theorem fact_rows_mysql:
  assumes "providers \<noteq> []" "distinct (map p_region providers)"
  shows "\<exists>m ids facts. main_mysql H insurance providers = Inr m \<and> fact m = (ids, facts)
     \<and> length facts = length insurance
     \<and> ids = [1..<Suc (length insurance)]
     \<and> (\<forall>i<length insurance.
           f_charges (facts ! i) = charges (insurance ! i)
         \<and> deterministc_date_for_row H (int (Suc i)) 2010 = Inr (f_date_key (facts ! i))
         \<and> f_date_key (facts ! i) \<in> date_key ` set (dim_date m)
         \<and> (\<exists>k. f_insured_key (facts ! i) = Some k
                \<and> (profile_of (transform_row (insurance ! i)), k) \<in> set (insured_dim m))
         \<and> (\<exists>g k. f_region_key (facts ! i) = Some k \<and> (g, k) \<in> set (regions m)
                \<and> rg_region g = str_lower (str_strip (region (insurance ! i)))))"
  using assms by (rule fact_rows_mysql_lemma)

theorem fact_rows_mysql_witness:
  "\<forall>H. \<exists>m ids facts. main_mysql H scenario example_providers = Inr m \<and> fact m = (ids, facts)
     \<and> length facts = 3 \<and> ids = [1, 2, 3]
     \<and> f_charges (facts ! 0) = Finite 1000 \<and> f_charges (facts ! 1) = Finite 5000
     \<and> f_charges (facts ! 2) = Finite 1200"
proof
  fix H :: hexdigest
  have p: "example_providers \<noteq> []" "distinct (map p_region example_providers)"
    by (simp_all add: example_providers_def)
  obtain m ids facts where r: "main_mysql H scenario example_providers = Inr m"
      "fact m = (ids, facts)" "length facts = length scenario"
      "ids = [1..<Suc (length scenario)]"
      "\<forall>i<length scenario. f_charges (facts ! i) = charges (scenario ! i)"
    using fact_rows_mysql [OF p, of H scenario] by blast
  have len: "length scenario = 3" by (simp add: scenario_def)
  have "ids = [1, 2, 3]" using r(4) unfolding len by (simp add: upt_rec)
  moreover have "f_charges (facts ! 0) = Finite 1000" "f_charges (facts ! 1) = Finite 5000"
      "f_charges (facts ! 2) = Finite 1200"
    using r(5) unfolding len by (simp_all add: scenario_def)
  ultimately show "\<exists>m ids facts. main_mysql H scenario example_providers = Inr m
     \<and> fact m = (ids, facts)
     \<and> length facts = 3 \<and> ids = [1, 2, 3]
     \<and> f_charges (facts ! 0) = Finite 1000 \<and> f_charges (facts ! 1) = Finite 5000
     \<and> f_charges (facts ! 2) = Finite 1200"
    using r(1,2,3) len by auto
qed

text \<open>
  With two reference entries for the same region the region dimension has two rows for
  it, and the left join of the fact step gives two fact rows for one raw record;
  \<^verbatim>\<open>etl_pipeline.py\<close> gives no fact row at all.
\<close>

theorem fact_rows_duplicated_reference_counterexample:
  "\<forall>H. (\<exists>m ids facts. main_mysql H [hd scenario] duplicated_providers = Inr m
            \<and> fact m = (ids, facts) \<and> length [hd scenario] = 1 \<and> length facts = 2)
       \<and> main_sqlite H [hd scenario] duplicated_providers = Inl (NameError ''np'')"
proof (intro allI conjI)
  fix H :: hexdigest
  define rg where "rg = [(\<lparr>rg_region = ''east'', preferred_provider = Some ''Provider E'',
            network_tier = Some ''Gold''\<rparr>, 1::nat),
          (\<lparr>rg_region = ''east'', preferred_provider = Some ''Provider F'',
            network_tier = Some ''Silver''\<rparr>, 2)]"
  define e where "e = enrich (transform [hd scenario]) (build_insured_dim (transform [hd scenario])) rg"
  have len_e: "length e = 2" unfolding e_def rg_def by (rule duplicated_enrich)
  obtain ds where dd: "make_date_dim date_2010_01_01 date_2010_12_31 = Inr (map make_date_row ds)"
    using date_dim_2010 by blast
  obtain ys where ys: "map_err (\<lambda>i. deterministc_date_for_row H (int i) 2010) [1..<Suc (length e)]
                         = Inr ys" "length ys = length [1..<Suc (length e)]"
    using date_keys_2010 [of H "[1..<Suc (length e)]"] by blast
  have len_ys: "length ys = 2" using ys(2) len_e by simp
  have bf: "build_fact_mysql H (transform [hd scenario]) (build_insured_dim (transform [hd scenario])) rg
              = Inr ([1..<Suc (length e)], map2 make_fact_row e ys)"
    unfolding build_fact_mysql_def Let_def e_def [symmetric]
    by (simp only: ys(1) bind_err_def sum.case)
  have "main_mysql H [hd scenario] duplicated_providers =
          Inr \<lparr>dim_date = map make_date_row ds,
               insured_dim = build_insured_dim (transform [hd scenario]), regions = rg,
               fact = ([1..<Suc (length e)], map2 make_fact_row e ys)\<rparr>"
    unfolding main_mysql_def Let_def
    by (simp only: duplicated_regions [folded rg_def] dd bf bind_err_def sum.case)
  moreover have "length (map2 make_fact_row e ys) = 2" using len_e len_ys by simp
  ultimately show "\<exists>m ids facts. main_mysql H [hd scenario] duplicated_providers = Inr m
            \<and> fact m = (ids, facts) \<and> length [hd scenario] = 1 \<and> length facts = 2"
    by simp
  show "main_sqlite H [hd scenario] duplicated_providers = Inl (NameError ''np'')"
    by (simp add: main_sqlite_outcome duplicated_providers_def)
qed

lemma matched_label_has_row:
  assumes "is_region_dimension insurance providers rg" "l \<in> normalized_labels insurance"
    "\<exists>p\<in>set providers. p_region p = l"
  shows "\<exists>x\<in>set rg. rg_region (fst x) = l \<and> preferred_provider (fst x) \<noteq> None
            \<and> network_tier (fst x) \<noteq> None"
proof -
  have lab: "rg_region ` fst ` set rg = normalized_labels insurance"
    and att: "\<forall>g\<in>fst ` set rg.
        if \<exists>p\<in>set providers. p_region p = rg_region g
        then \<exists>p\<in>set providers. p_region p = rg_region g
               \<and> preferred_provider g = Some (p_preferred_provider p)
               \<and> network_tier g = Some (p_network_tier p)
        else preferred_provider g = None \<and> network_tier g = None"
    using assms(1) by (simp_all add: is_region_dimension_def)
  have "l \<in> rg_region ` fst ` set rg" using lab assms(2) by simp
  then obtain x where x: "x \<in> set rg" "rg_region (fst x) = l" by auto
  then have "fst x \<in> fst ` set rg" by simp
  then have "if \<exists>p\<in>set providers. p_region p = rg_region (fst x)
        then \<exists>p\<in>set providers. p_region p = rg_region (fst x)
               \<and> preferred_provider (fst x) = Some (p_preferred_provider p)
               \<and> network_tier (fst x) = Some (p_network_tier p)
        else preferred_provider (fst x) = None \<and> network_tier (fst x) = None"
    using att by blast
  then have "\<exists>p\<in>set providers. p_region p = rg_region (fst x)
               \<and> preferred_provider (fst x) = Some (p_preferred_provider p)
               \<and> network_tier (fst x) = Some (p_network_tier p)"
    using assms(3) by (simp only: x(2) if_True)
  then have "preferred_provider (fst x) \<noteq> None \<and> network_tier (fst x) \<noteq> None" by auto
  then show ?thesis using x by blast
qed

text \<open>
  Claim C9. Whenever a pipeline builds the region dimension, the region of every row is
  a stripped and lower-cased source label, and its enrichment attributes are non-null
  if and only if some reference entry has exactly that string as its region: the
  reference side is compared as it is, neither stripped nor lower-cased. And for every
  source region label, a row of the label with non-null enrichment attributes is built
  if and only if the reference dataset has an entry whose region is exactly the
  stripped and lower-cased label.
\<close>

theorem enrichment_iff_verbatim:
  "(\<forall>rg. build_regions (transform insurance) providers = Inr rg
          \<or> build_regions_mysql (transform insurance) providers = Inr rg \<longrightarrow>
      (\<forall>x\<in>set rg. rg_region (fst x) \<in> normalized_labels insurance
           \<and> (preferred_provider (fst x) \<noteq> None \<longleftrightarrow>
                (\<exists>p\<in>set providers. p_region p = rg_region (fst x)))
           \<and> (network_tier (fst x) \<noteq> None \<longleftrightarrow>
                (\<exists>p\<in>set providers. p_region p = rg_region (fst x)))))
   \<and> (\<forall>l\<in>normalized_labels insurance.
        ((\<exists>rg. build_regions (transform insurance) providers = Inr rg
             \<and> (\<exists>x\<in>set rg. rg_region (fst x) = l \<and> preferred_provider (fst x) \<noteq> None
                    \<and> network_tier (fst x) \<noteq> None))
           \<longleftrightarrow> (\<exists>p\<in>set providers. p_region p = l))
      \<and> ((\<exists>rg. build_regions_mysql (transform insurance) providers = Inr rg
             \<and> (\<exists>x\<in>set rg. rg_region (fst x) = l \<and> preferred_provider (fst x) \<noteq> None
                    \<and> network_tier (fst x) \<noteq> None))
           \<longleftrightarrow> (\<exists>p\<in>set providers. p_region p = l)))"
proof (intro conjI allI impI ballI)
  fix rg x
  assume "build_regions (transform insurance) providers = Inr rg
          \<or> build_regions_mysql (transform insurance) providers = Inr rg" "x \<in> set rg"
  then show "rg_region (fst x) \<in> normalized_labels insurance"
    "(preferred_provider (fst x) \<noteq> None) = (\<exists>p\<in>set providers. p_region p = rg_region (fst x))"
    "(network_tier (fst x) \<noteq> None) = (\<exists>p\<in>set providers. p_region p = rg_region (fst x))"
    using enrichment_rows by blast+
next
  fix l assume l: "l \<in> normalized_labels insurance"
  show "(\<exists>rg. build_regions (transform insurance) providers = Inr rg
             \<and> (\<exists>x\<in>set rg. rg_region (fst x) = l \<and> preferred_provider (fst x) \<noteq> None
                    \<and> network_tier (fst x) \<noteq> None))
           \<longleftrightarrow> (\<exists>p\<in>set providers. p_region p = l)"
  proof
    assume "\<exists>rg. build_regions (transform insurance) providers = Inr rg
             \<and> (\<exists>x\<in>set rg. rg_region (fst x) = l \<and> preferred_provider (fst x) \<noteq> None
                    \<and> network_tier (fst x) \<noteq> None)"
    then show "\<exists>p\<in>set providers. p_region p = l"
      using enrichment_rows [of insurance providers] by blast
  next
    assume m: "\<exists>p\<in>set providers. p_region p = l"
    then have "providers \<noteq> []" by auto
    then obtain rg where "build_regions (transform insurance) providers = Inr rg"
        "is_region_dimension insurance providers rg"
      using build_regions_ok by blast
    then show "\<exists>rg. build_regions (transform insurance) providers = Inr rg
             \<and> (\<exists>x\<in>set rg. rg_region (fst x) = l \<and> preferred_provider (fst x) \<noteq> None
                    \<and> network_tier (fst x) \<noteq> None)"
      using matched_label_has_row [OF _ l m] by blast
  qed
  show "(\<exists>rg. build_regions_mysql (transform insurance) providers = Inr rg
             \<and> (\<exists>x\<in>set rg. rg_region (fst x) = l \<and> preferred_provider (fst x) \<noteq> None
                    \<and> network_tier (fst x) \<noteq> None))
           \<longleftrightarrow> (\<exists>p\<in>set providers. p_region p = l)"
  proof
    assume "\<exists>rg. build_regions_mysql (transform insurance) providers = Inr rg
             \<and> (\<exists>x\<in>set rg. rg_region (fst x) = l \<and> preferred_provider (fst x) \<noteq> None
                    \<and> network_tier (fst x) \<noteq> None)"
    then show "\<exists>p\<in>set providers. p_region p = l"
      using enrichment_rows [of insurance providers] by blast
  next
    assume m: "\<exists>p\<in>set providers. p_region p = l"
    then have "providers \<noteq> []" by auto
    then obtain rg where "build_regions_mysql (transform insurance) providers = Inr rg"
        "is_region_dimension insurance providers rg"
      using build_regions_mysql_ok by blast
    then show "\<exists>rg. build_regions_mysql (transform insurance) providers = Inr rg
             \<and> (\<exists>x\<in>set rg. rg_region (fst x) = l \<and> preferred_provider (fst x) \<noteq> None
                    \<and> network_tier (fst x) \<noteq> None)"
      using matched_label_has_row [OF _ l m] by blast
  qed
qed

theorem enrichment_iff_verbatim_witness:
  "\<exists>rg. build_regions (transform scenario) unnormalized_providers = Inr rg
       \<and> map (\<lambda>x. rg_region (fst x)) rg = [''east'', ''west'']
       \<and> list_all (\<lambda>x. preferred_provider (fst x) = None \<and> network_tier (fst x) = None) rg
       \<and> list_all (\<lambda>x. \<not> (\<exists>p\<in>set unnormalized_providers. p_region p = rg_region (fst x))) rg"
proof -
  note ev = scenario_regions_unnormalized
  have "\<forall>x\<in>set [(\<lparr>rg_region = ''east'', preferred_provider = None, network_tier = None\<rparr>, 1::nat),
          (\<lparr>rg_region = ''west'', preferred_provider = None, network_tier = None\<rparr>, 2)].
          (preferred_provider (fst x) \<noteq> None \<longleftrightarrow>
             (\<exists>p\<in>set unnormalized_providers. p_region p = rg_region (fst x)))"
    using enrichment_iff_verbatim [of scenario unnormalized_providers] ev by blast
  then show ?thesis by (simp add: ev)
qed

end
